theory Spec2Isabelle
  imports Main "HOL-Library.Finite_Map"
begin

section \<open>Values, exceptions and the collaborators' interface\<close>

text \<open>
  The fixture of \<^verbatim>\<open>shared_zone_test_context.py\<close> builds request dictionaries and reads
  fields of the dictionaries the remote service answers with. Python values are
  modelled by \<open>json\<close>; a \<^verbatim>\<open>dict\<close> is a finite map, so that equality of two
  dictionaries is equality of their key-value pairs, as in Python. Two points where the
  model is coarser than Python: a number and a boolean are never equal here
  (\<^verbatim>\<open>1 == True\<close> there), and values are immutable, so a collaborator cannot change a
  dictionary it is passed.
\<close>

datatype json =
    JNull
  | JBool bool
  | JNum int
  | JStr string
  | JList "json list"
  | JDict "(string, json) fmap"

abbreviation dict :: "(string \<times> json) list \<Rightarrow> json" where
  "dict kvs \<equiv> JDict (fmap_of_list kvs)"

text \<open>
  Exceptions. \<open>Failure n\<close> stands for any other exception a collaborator raises
  (a connection error, a time-out of a wait, ...).
\<close>

datatype exn = AssertionError | KeyError | TypeError | Failure nat

text \<open>\<^verbatim>\<open>d[k]\<close> for a string key \<open>k\<close>: a missing key raises, and so does a value
  that is not a dictionary.\<close>

fun py_getitem :: "json \<Rightarrow> string \<Rightarrow> exn + json" where
  "py_getitem (JDict m) k = (case fmlookup m k of None \<Rightarrow> Inl KeyError | Some v \<Rightarrow> Inr v)"
| "py_getitem _ k = Inl TypeError"

text \<open>\<^verbatim>\<open>len(v)\<close>: defined on lists, strings and dictionaries.\<close>

fun py_len :: "json \<Rightarrow> exn + nat" where
  "py_len (JList xs) = Inr (length xs)"
| "py_len (JStr s) = Inr (length s)"
| "py_len (JDict m) = Inr (size (fmdom m))"
| "py_len _ = Inl TypeError"

text \<open>
  \<^verbatim>\<open>VinylDNSClient(url, access_key, secret_key)\<close> and the attributes of
  \<^verbatim>\<open>VinylDNSTestContext\<close> the fixture reads. Both classes are declared outside
  this file; the attribute values are a parameter of the model.
\<close>

record vinyldns_client =
  url :: string
  access_key :: string
  secret_key :: string

record test_context =
  vinyldns_url :: string
  dns_key_name :: string
  dns_key :: string
  dns_ip :: string

definition VinylDNSClient :: "string \<Rightarrow> string \<Rightarrow> string \<Rightarrow> vinyldns_client" where
  "VinylDNSClient u a k = \<lparr>url = u, access_key = a, secret_key = k\<rparr>"

text \<open>
  The calls the fixture makes on its collaborators: the methods of a client and the two
  bulk helpers \<^verbatim>\<open>clear_zones(client)\<close> and \<^verbatim>\<open>clear_groups(client, exclude)\<close>.
  A call records the client, the operation with its arguments and the \<^verbatim>\<open>status=\<close>
  keyword argument when the source passes one.
\<close>

datatype operation =
    Get_group string
  | List_all_my_groups
  | Create_group json
  | Update_group string json
  | Create_zone json
  | Wait_until_zone_exists json
  | List_zones
  | Clear_zones
  | Clear_groups "string list"

datatype call = Call vinyldns_client operation "nat option"

text \<open>What a call comes back with: an exception, or a status code and a body.\<close>

datatype reply = Raises exn | Response nat json

text \<open>
  The remote service and the helpers are a black box with a state of its own:
  \<open>respond\<close> answers a call and moves the state, \<open>elapse\<close> is what happens to it
  while the fixture sleeps (the argument is in milliseconds).
\<close>

record 'w remote =
  respond :: "call \<Rightarrow> 'w \<Rightarrow> reply \<times> 'w"
  elapse :: "nat \<Rightarrow> 'w \<Rightarrow> 'w"

text \<open>What the fixture did, in order: the calls with their replies, and the sleeps.\<close>

datatype event = Called call reply | Slept nat

section \<open>The fixture object and the state of a run\<close>

text \<open>
  The attributes of \<^verbatim>\<open>SharedZoneTestContext\<close>. The two groups start as \<^verbatim>\<open>None\<close>
  (\<open>JNull\<close>); a zone attribute does not exist (\<open>None\<close>) until it is assigned.
\<close>

record shared_zone_test_context =
  ok_vinyldns_client :: vinyldns_client
  dummy_vinyldns_client :: vinyldns_client
  dummy_group :: json
  ok_group :: json
  ok_zone :: "json option"
  dummy_zone :: "json option"
  ip6_reverse_zone :: "json option"
  ip4_reverse_zone :: "json option"
  classless_base_zone :: "json option"
  classless_zone_delegation_zone :: "json option"
  system_test_zone :: "json option"
  parent_zone :: "json option"

text \<open>
  A run threads the object under construction, the state of the remote system and the
  trace of what has been done so far. The program never reads the trace.
\<close>

record 'w machine =
  self :: shared_zone_test_context
  world :: 'w
  trace :: "event list"

type_synonym ('w, 'a) prog = "'w machine \<Rightarrow> (exn + 'a) \<times> 'w machine"

definition return :: "'a \<Rightarrow> ('w, 'a) prog" where
  "return x s = (Inr x, s)"

definition raise :: "exn \<Rightarrow> ('w, 'a) prog" where
  "raise e s = (Inl e, s)"

text \<open>Sequencing: an exception of the first statement skips the rest.\<close>

definition and_then :: "('w, 'a) prog \<Rightarrow> ('a \<Rightarrow> ('w, 'b) prog) \<Rightarrow> ('w, 'b) prog" where
  "and_then m f s = (case m s of (Inl e, s') \<Rightarrow> (Inl e, s') | (Inr x, s') \<Rightarrow> f x s')"

definition lift :: "exn + 'a \<Rightarrow> ('w, 'a) prog" where
  "lift r s = (r, s)"

text \<open>Reading and assigning an attribute of \<^verbatim>\<open>self\<close>.\<close>

definition read :: "(shared_zone_test_context \<Rightarrow> 'a) \<Rightarrow> ('w, 'a) prog" where
  "read f s = (Inr (f (self s)), s)"

definition assign ::
  "(shared_zone_test_context \<Rightarrow> shared_zone_test_context) \<Rightarrow> ('w, unit) prog" where
  "assign f s = (Inr (), s\<lparr>self := f (self s)\<rparr>)"

text \<open>\<^verbatim>\<open>assert_that(actual, is_(expected))\<close> of hamcrest, on the outcome of the comparison.\<close>

definition assert_that :: "bool \<Rightarrow> ('w, unit) prog" where
  "assert_that b = (if b then return () else raise AssertionError)"

text \<open>\<^verbatim>\<open>time.sleep(.05)\<close>: the argument is kept in milliseconds.\<close>

definition time_sleep :: "'w remote \<Rightarrow> nat \<Rightarrow> ('w, unit) prog" where
  "time_sleep env ms s =
     (Inr (), s\<lparr>world := elapse env ms (world s), trace := trace s @ [Slept ms]\<rparr>)"

subsection \<open>The client methods\<close>

text \<open>
  Modelled from the spec: the methods of \<^verbatim>\<open>VinylDNSClient\<close> (module
  \<^verbatim>\<open>vinyldns_python\<close>) and the helpers of \<^verbatim>\<open>utils\<close> are not part of this file.
  A call is answered by the remote; an exception raised inside the call propagates;
  when the source passes \<^verbatim>\<open>status=n\<close>, a response with another status code is a
  failed assertion ("any call returning an unexpected status is a fatal setup error");
  otherwise the call returns the body.
\<close>

fun status_accepted :: "nat option \<Rightarrow> nat \<Rightarrow> bool" where
  "status_accepted None code = True"
| "status_accepted (Some n) code = (code = n)"

definition invoke ::
  "'w remote \<Rightarrow> vinyldns_client \<Rightarrow> operation \<Rightarrow> nat option \<Rightarrow> ('w, json) prog" where
  "invoke env client op st s =
     (case respond env (Call client op st) (world s) of
        (r, w') \<Rightarrow>
          (let s' = s\<lparr>world := w', trace := trace s @ [Called (Call client op st) r]\<rparr>
           in case r of
                Raises e \<Rightarrow> (Inl e, s')
              | Response code body \<Rightarrow>
                  (if status_accepted st code then (Inr body, s') else (Inl AssertionError, s'))))"

definition get_group :: "'w remote \<Rightarrow> vinyldns_client \<Rightarrow> string \<Rightarrow> nat \<Rightarrow> ('w, json) prog" where
  "get_group env client group_id st = invoke env client (Get_group group_id) (Some st)"

text \<open>Modelled from the spec: \<^verbatim>\<open>list_all_my_groups() -> sequence of group\<close>; a body
  that is not a list is a type error inside the client.\<close>

definition list_all_my_groups :: "'w remote \<Rightarrow> vinyldns_client \<Rightarrow> nat \<Rightarrow> ('w, json list) prog" where
  "list_all_my_groups env client st =
     and_then (invoke env client List_all_my_groups (Some st))
       (\<lambda>body. case body of JList gs \<Rightarrow> return gs | _ \<Rightarrow> raise TypeError)"

definition create_group :: "'w remote \<Rightarrow> vinyldns_client \<Rightarrow> json \<Rightarrow> nat \<Rightarrow> ('w, json) prog" where
  "create_group env client g st = invoke env client (Create_group g) (Some st)"

definition update_group ::
  "'w remote \<Rightarrow> vinyldns_client \<Rightarrow> string \<Rightarrow> json \<Rightarrow> nat \<Rightarrow> ('w, json) prog" where
  "update_group env client group_id g st = invoke env client (Update_group group_id g) (Some st)"

definition create_zone :: "'w remote \<Rightarrow> vinyldns_client \<Rightarrow> json \<Rightarrow> nat \<Rightarrow> ('w, json) prog" where
  "create_zone env client z st = invoke env client (Create_zone z) (Some st)"

definition wait_until_zone_exists :: "'w remote \<Rightarrow> vinyldns_client \<Rightarrow> json \<Rightarrow> ('w, json) prog" where
  "wait_until_zone_exists env client zone_change =
     invoke env client (Wait_until_zone_exists zone_change) None"

definition list_zones :: "'w remote \<Rightarrow> vinyldns_client \<Rightarrow> ('w, json) prog" where
  "list_zones env client = invoke env client List_zones None"

definition clear_zones :: "'w remote \<Rightarrow> vinyldns_client \<Rightarrow> ('w, json) prog" where
  "clear_zones env client = invoke env client Clear_zones None"

definition clear_groups :: "'w remote \<Rightarrow> vinyldns_client \<Rightarrow> string list \<Rightarrow> ('w, json) prog" where
  "clear_groups env client exclude = invoke env client (Clear_groups exclude) None"

section \<open>The fixture\<close>

subsection \<open>\<^verbatim>\<open>confirm_member_in_group\<close>\<close>

text \<open>
  The loop of \<^verbatim>\<open>confirm_member_in_group\<close>, with the local variables \<^verbatim>\<open>retries\<close> and
  \<^verbatim>\<open>success\<close> as arguments (\<open>grp\<close> is the parameter \<^verbatim>\<open>group\<close>): each
  iteration lists the groups, sleeps 50 ms and decrements \<^verbatim>\<open>retries\<close>.
\<close>

function confirm_loop ::
  "'w remote \<Rightarrow> vinyldns_client \<Rightarrow> json \<Rightarrow> int \<Rightarrow> bool \<Rightarrow> ('w, bool) prog" where
  "confirm_loop env client grp retries success s =
     (if retries \<ge> 0 \<and> \<not> success then
        (case list_all_my_groups env client 200 s of
           (Inl e, s1) \<Rightarrow> (Inl e, s1)
         | (Inr gs, s1) \<Rightarrow>
             (case time_sleep env 50 s1 of
                (r, s2) \<Rightarrow> confirm_loop env client grp (retries - 1) (grp \<in> set gs) s2))
      else (Inr success, s))"
  by pat_completeness auto
termination
  by (relation "measure (\<lambda>(env, client, group, retries, success, s). nat (retries + 1))") auto

definition confirm_member_in_group ::
  "'w remote \<Rightarrow> vinyldns_client \<Rightarrow> json \<Rightarrow> ('w, unit) prog" where
  "confirm_member_in_group env client grp =
     and_then (list_all_my_groups env client 200) (\<lambda>gs.
     and_then (confirm_loop env client grp 2 (grp \<in> set gs)) (\<lambda>success.
     assert_that (success = True)))"

subsection \<open>\<^verbatim>\<open>tear_down\<close>\<close>

definition baseline_ok_group :: json where
  "baseline_ok_group = dict
     [(''id'', JStr ''ok''),
      (''name'', JStr ''ok''),
      (''email'', JStr ''test@test.com''),
      (''description'', JStr ''this is a description''),
      (''members'', JList [dict [(''id'', JStr ''ok'')]]),
      (''admins'', JList [dict [(''id'', JStr ''ok'')]])]"

text \<open>The dictionary \<^verbatim>\<open>ok_group\<close> of \<^verbatim>\<open>tear_down\<close>; its \<^verbatim>\<open>['id']\<close> is \<^verbatim>\<open>'ok'\<close>.
  \<^verbatim>\<open>clear_groups(client)\<close> without \<^verbatim>\<open>exclude\<close> is recorded with the empty list.\<close>

definition tear_down :: "'w remote \<Rightarrow> ('w, unit) prog" where
  "tear_down env =
     and_then (read dummy_vinyldns_client) (\<lambda>client.
     and_then (clear_zones env client) (\<lambda>_.
     and_then (read ok_vinyldns_client) (\<lambda>client.
     and_then (clear_zones env client) (\<lambda>_.
     and_then (read dummy_vinyldns_client) (\<lambda>client.
     and_then (clear_groups env client []) (\<lambda>_.
     and_then (read ok_vinyldns_client) (\<lambda>client.
     and_then (clear_groups env client [''ok'']) (\<lambda>_.
     and_then (read ok_vinyldns_client) (\<lambda>client.
     and_then (update_group env client ''ok'' baseline_ok_group 200) (\<lambda>_.
     return ()))))))))))"

subsection \<open>\<^verbatim>\<open>__init__\<close>\<close>

text \<open>The request dictionaries. \<open>connection\<close> is the descriptor the source writes out
  twice in every zone, as \<^verbatim>\<open>connection\<close> and as \<^verbatim>\<open>transferConnection\<close>.\<close>

definition dummy_group_request :: json where
  "dummy_group_request = dict
     [(''name'', JStr ''dummy-group''),
      (''email'', JStr ''test@test.com''),
      (''description'', JStr ''this is a description''),
      (''members'', JList [dict [(''id'', JStr ''dummy'')]]),
      (''admins'', JList [dict [(''id'', JStr ''dummy'')]])]"

definition connection :: "test_context \<Rightarrow> string \<Rightarrow> json" where
  "connection tc nm = dict
     [(''name'', JStr nm),
      (''keyName'', JStr (dns_key_name tc)),
      (''key'', JStr (dns_key tc)),
      (''primaryServer'', JStr (dns_ip tc))]"

definition zone_request :: "test_context \<Rightarrow> string \<Rightarrow> bool \<Rightarrow> json \<Rightarrow> string \<Rightarrow> json" where
  "zone_request tc nm sh admin_group_id conn = dict
     [(''name'', JStr nm),
      (''email'', JStr ''test@test.com''),
      (''shared'', JBool sh),
      (''adminGroupId'', admin_group_id),
      (''connection'', connection tc conn),
      (''transferConnection'', connection tc conn)]"

definition parent_zone_request :: "test_context \<Rightarrow> json \<Rightarrow> json" where
  "parent_zone_request tc admin_group_id = dict
     [(''name'', JStr ''parent.com.''),
      (''email'', JStr ''test@test.com''),
      (''shared'', JBool False),
      (''adminGroupId'', admin_group_id),
      (''acl'', dict [(''rules'', JList
          [dict [(''accessLevel'', JStr ''Delete''),
                 (''description'', JStr ''some_test_rule''),
                 (''userId'', JStr ''dummy'')]])]),
      (''connection'', connection tc ''parent.''),
      (''transferConnection'', connection tc ''parent.'')]"

text \<open>
  One zone of the catalog: \<^verbatim>\<open>change = self.<client>.create_zone({..., 'adminGroupId':
  self.<group>['id'], ...}, status=202); self.<zone> = change['zone']\<close>. The result
  is the local variable \<^verbatim>\<open>change\<close>.
\<close>

definition create_zone_as ::
  "'w remote \<Rightarrow> (shared_zone_test_context \<Rightarrow> vinyldns_client) \<Rightarrow>
   (shared_zone_test_context \<Rightarrow> json) \<Rightarrow> (json \<Rightarrow> json) \<Rightarrow>
   (json \<Rightarrow> shared_zone_test_context \<Rightarrow> shared_zone_test_context) \<Rightarrow> ('w, json) prog" where
  "create_zone_as env client_of group_of request store =
     and_then (read client_of) (\<lambda>client.
     and_then (read group_of) (\<lambda>group.
     and_then (lift (py_getitem group ''id'')) (\<lambda>group_id.
     and_then (create_zone env client (request group_id) 202) (\<lambda>change.
     and_then (lift (py_getitem change ''zone'')) (\<lambda>z.
     and_then (assign (store z)) (\<lambda>_.
     return change))))))"

text \<open>The local variables that hold the pending zone changes.\<close>

record zone_changes =
  ok_zone_change :: json
  dummy_zone_change :: json
  ip6_reverse_zone_change :: json
  ip4_reverse_zone_change :: json
  classless_base_zone_change :: json
  classless_zone_delegation_change :: json
  system_test_zone_change :: json
  parent_zone_change :: json

text \<open>Lines 21 to 34: the canonical group and the group of the second user.\<close>

definition setup_groups :: "'w remote \<Rightarrow> ('w, unit) prog" where
  "setup_groups env =
     and_then (read ok_vinyldns_client) (\<lambda>client.
     and_then (get_group env client ''ok'' 200) (\<lambda>g.
     and_then (assign (ok_group_update (\<lambda>_. g))) (\<lambda>_.
     and_then (read ok_vinyldns_client) (\<lambda>client.
     and_then (read ok_group) (\<lambda>group.
     and_then (confirm_member_in_group env client group) (\<lambda>_.
     and_then (read dummy_vinyldns_client) (\<lambda>client.
     and_then (create_group env client dummy_group_request 200) (\<lambda>g.
     and_then (assign (dummy_group_update (\<lambda>_. g))) (\<lambda>_.
     and_then (read dummy_vinyldns_client) (\<lambda>client.
     and_then (read dummy_group) (\<lambda>group.
     confirm_member_in_group env client group)))))))))))"

text \<open>Lines 36 to 217: the eight zones of the catalog.\<close>

definition create_zones :: "'w remote \<Rightarrow> test_context \<Rightarrow> ('w, zone_changes) prog" where
  "create_zones env tc =
     and_then (create_zone_as env ok_vinyldns_client ok_group
        (\<lambda>i. zone_request tc ''ok.'' False i ''ok.'')
        (\<lambda>z. ok_zone_update (\<lambda>_. Some z))) (\<lambda>c1.
     and_then (create_zone_as env dummy_vinyldns_client dummy_group
        (\<lambda>i. zone_request tc ''dummy.'' False i ''dummy.'')
        (\<lambda>z. dummy_zone_update (\<lambda>_. Some z))) (\<lambda>c2.
     and_then (create_zone_as env ok_vinyldns_client ok_group
        (\<lambda>i. zone_request tc ''1.9.e.f.c.c.7.2.9.6.d.f.ip6.arpa.'' True i ''ip6.'')
        (\<lambda>z. ip6_reverse_zone_update (\<lambda>_. Some z))) (\<lambda>c3.
     and_then (create_zone_as env ok_vinyldns_client ok_group
        (\<lambda>i. zone_request tc ''30.172.in-addr.arpa.'' True i ''ip4.'')
        (\<lambda>z. ip4_reverse_zone_update (\<lambda>_. Some z))) (\<lambda>c4.
     and_then (create_zone_as env ok_vinyldns_client ok_group
        (\<lambda>i. zone_request tc ''2.0.192.in-addr.arpa.'' False i ''classless-base.'')
        (\<lambda>z. classless_base_zone_update (\<lambda>_. Some z))) (\<lambda>c5.
     and_then (create_zone_as env ok_vinyldns_client ok_group
        (\<lambda>i. zone_request tc ''192/30.2.0.192.in-addr.arpa.'' False i ''classless.'')
        (\<lambda>z. classless_zone_delegation_zone_update (\<lambda>_. Some z))) (\<lambda>c6.
     and_then (create_zone_as env ok_vinyldns_client ok_group
        (\<lambda>i. zone_request tc ''system-test.'' True i ''system-test.'')
        (\<lambda>z. system_test_zone_update (\<lambda>_. Some z))) (\<lambda>c7.
     and_then (create_zone_as env ok_vinyldns_client ok_group
        (\<lambda>i. parent_zone_request tc i)
        (\<lambda>z. parent_zone_update (\<lambda>_. Some z))) (\<lambda>c8.
     return \<lparr>ok_zone_change = c1, dummy_zone_change = c2, ip6_reverse_zone_change = c3,
             ip4_reverse_zone_change = c4, classless_base_zone_change = c5,
             classless_zone_delegation_change = c6, system_test_zone_change = c7,
             parent_zone_change = c8\<rparr>))))))))"

text \<open>Lines 219 to 228: the nine waits.\<close>

definition await_zones :: "'w remote \<Rightarrow> zone_changes \<Rightarrow> ('w, unit) prog" where
  "await_zones env ch =
     and_then (read ok_vinyldns_client) (\<lambda>client.
     and_then (wait_until_zone_exists env client (system_test_zone_change ch)) (\<lambda>_.
     and_then (read ok_vinyldns_client) (\<lambda>client.
     and_then (wait_until_zone_exists env client (ok_zone_change ch)) (\<lambda>_.
     and_then (read dummy_vinyldns_client) (\<lambda>client.
     and_then (wait_until_zone_exists env client (dummy_zone_change ch)) (\<lambda>_.
     and_then (read ok_vinyldns_client) (\<lambda>client.
     and_then (wait_until_zone_exists env client (ip6_reverse_zone_change ch)) (\<lambda>_.
     and_then (read ok_vinyldns_client) (\<lambda>client.
     and_then (wait_until_zone_exists env client (ip4_reverse_zone_change ch)) (\<lambda>_.
     and_then (read ok_vinyldns_client) (\<lambda>client.
     and_then (wait_until_zone_exists env client (classless_base_zone_change ch)) (\<lambda>_.
     and_then (read ok_vinyldns_client) (\<lambda>client.
     and_then (wait_until_zone_exists env client (classless_zone_delegation_change ch)) (\<lambda>_.
     and_then (read ok_vinyldns_client) (\<lambda>client.
     and_then (wait_until_zone_exists env client (system_test_zone_change ch)) (\<lambda>_.
     and_then (read ok_vinyldns_client) (\<lambda>client.
     and_then (wait_until_zone_exists env client (parent_zone_change ch)) (\<lambda>_.
     return ()))))))))))))))))))"

text \<open>Lines 230 to 234: the two listings and their sizes.\<close>

definition validate_zones :: "'w remote \<Rightarrow> ('w, unit) prog" where
  "validate_zones env =
     and_then (read dummy_vinyldns_client) (\<lambda>client.
     and_then (list_zones env client) (\<lambda>listing.
     and_then (lift (py_getitem listing ''zones'')) (\<lambda>zones.
     and_then (lift (py_len zones)) (\<lambda>n.
     and_then (assert_that (n = 2)) (\<lambda>_.
     and_then (read ok_vinyldns_client) (\<lambda>client.
     and_then (list_zones env client) (\<lambda>listing.
     and_then (lift (py_getitem listing ''zones'')) (\<lambda>zones.
     and_then (lift (py_len zones)) (\<lambda>n.
     assert_that (n = 7))))))))))"

text \<open>The body of the \<^verbatim>\<open>try\<close> statement, lines 21 to 234.\<close>

definition fixture_body :: "'w remote \<Rightarrow> test_context \<Rightarrow> ('w, unit) prog" where
  "fixture_body env tc =
     and_then (setup_groups env) (\<lambda>_.
     and_then (create_zones env tc) (\<lambda>ch.
     and_then (await_zones env ch) (\<lambda>_.
     validate_zones env)))"

text \<open>The object after lines 12 to 16, before anything is called.\<close>

definition new_context :: "test_context \<Rightarrow> shared_zone_test_context" where
  "new_context tc =
     \<lparr>ok_vinyldns_client = VinylDNSClient (vinyldns_url tc) ''okAccessKey'' ''okSecretKey'',
      dummy_vinyldns_client = VinylDNSClient (vinyldns_url tc) ''dummyAccessKey'' ''dummySecretKey'',
      dummy_group = JNull,
      ok_group = JNull,
      ok_zone = None,
      dummy_zone = None,
      ip6_reverse_zone = None,
      ip4_reverse_zone = None,
      classless_base_zone = None,
      classless_zone_delegation_zone = None,
      system_test_zone = None,
      parent_zone = None\<rparr>"

definition start :: "test_context \<Rightarrow> 'w \<Rightarrow> 'w machine" where
  "start tc w = \<lparr>self = new_context tc, world = w, trace = []\<rparr>"

text \<open>
  \<^verbatim>\<open>try: ... except: try: self.tear_down() except: pass; raise\<close>: when the body
  raises, \<open>tear_down\<close> runs from the state the body left, its own outcome is dropped and
  the exception of the body is raised again.
\<close>

definition guarded_body :: "'w remote \<Rightarrow> test_context \<Rightarrow> ('w, unit) prog" where
  "guarded_body env tc s =
     (case fixture_body env tc s of
        (Inr u, s') \<Rightarrow> (Inr u, s')
      | (Inl e, s') \<Rightarrow> (case tear_down env s' of (r, s'') \<Rightarrow> (Inl e, s'')))"

text \<open>\<^verbatim>\<open>SharedZoneTestContext()\<close>: the constructor, run against a remote in state \<open>w\<close>.\<close>

definition init :: "'w remote \<Rightarrow> test_context \<Rightarrow> 'w \<Rightarrow> (exn + unit) \<times> 'w machine" where
  "init env tc w = and_then (tear_down env) (\<lambda>_. guarded_body env tc) (start tc w)"

section \<open>Reading a trace\<close>

fun is_create_zone :: "event \<Rightarrow> bool" where
  "is_create_zone (Called (Call c (Create_zone z) st) r) = True"
| "is_create_zone _ = False"

fun is_wait :: "event \<Rightarrow> bool" where
  "is_wait (Called (Call c (Wait_until_zone_exists z) st) r) = True"
| "is_wait _ = False"

fun is_list_zones :: "event \<Rightarrow> bool" where
  "is_list_zones (Called (Call c List_zones st) r) = True"
| "is_list_zones _ = False"

fun is_list_groups :: "event \<Rightarrow> bool" where
  "is_list_groups (Called (Call c List_all_my_groups st) r) = True"
| "is_list_groups _ = False"

fun is_get_group :: "event \<Rightarrow> bool" where
  "is_get_group (Called (Call c (Get_group i) st) r) = True"
| "is_get_group _ = False"

fun is_create_group :: "event \<Rightarrow> bool" where
  "is_create_group (Called (Call c (Create_group g) st) r) = True"
| "is_create_group _ = False"

text \<open>The events of a membership poll: listings of the groups and sleeps.\<close>

fun is_poll :: "event \<Rightarrow> bool" where
  "is_poll (Called (Call c List_all_my_groups st) r) = True"
| "is_poll (Slept ms) = True"
| "is_poll _ = False"

text \<open>The events of a clean-up.\<close>

fun is_cleanup :: "event \<Rightarrow> bool" where
  "is_cleanup (Called (Call c Clear_zones st) r) = True"
| "is_cleanup (Called (Call c (Clear_groups ex) st) r) = True"
| "is_cleanup (Called (Call c (Update_group i g) st) r) = True"
| "is_cleanup _ = False"

text \<open>A listing of the groups that came back with the status asked for and holds the
  group \<open>g\<close>: the predicate of the poll is true.\<close>

fun shows_group :: "json \<Rightarrow> event \<Rightarrow> bool" where
  "shows_group g (Called (Call c List_all_my_groups (Some n)) (Response code (JList gs))) =
     (code = n \<and> g \<in> set gs)"
| "shows_group g _ = False"

definition zone_event :: "event \<Rightarrow> bool" where
  "zone_event ev = (is_create_zone ev \<or> is_wait ev \<or> is_list_zones ev)"

text \<open>The body a call returned with, if it did.\<close>

fun body_of :: "event \<Rightarrow> json option" where
  "body_of (Called c (Response code b)) = Some b"
| "body_of _ = None"

fun call_of :: "event \<Rightarrow> call option" where
  "call_of (Called c r) = Some c"
| "call_of (Slept ms) = None"

text \<open>The call came back with a response, not with an exception.\<close>

fun returned :: "event \<Rightarrow> bool" where
  "returned (Called c (Response code b)) = True"
| "returned _ = False"

text \<open>
  The eight zone creations of a run that gets through them, in the order of the source:
  \<open>i_ok\<close> and \<open>i_dummy\<close> are the ids of the two groups, \<open>ch\<close> holds the bodies the
  calls returned. Every call asks for status 202 and was answered with 202.
\<close>

definition creation_events :: "test_context \<Rightarrow> json \<Rightarrow> json \<Rightarrow> zone_changes \<Rightarrow> event list" where
  "creation_events tc i_ok i_dummy ch =
     [Called (Call (ok_vinyldns_client (new_context tc))
                (Create_zone (zone_request tc ''ok.'' False i_ok ''ok.'')) (Some 202))
        (Response 202 (ok_zone_change ch)),
      Called (Call (dummy_vinyldns_client (new_context tc))
                (Create_zone (zone_request tc ''dummy.'' False i_dummy ''dummy.'')) (Some 202))
        (Response 202 (dummy_zone_change ch)),
      Called (Call (ok_vinyldns_client (new_context tc))
                (Create_zone (zone_request tc ''1.9.e.f.c.c.7.2.9.6.d.f.ip6.arpa.'' True i_ok ''ip6.''))
                (Some 202))
        (Response 202 (ip6_reverse_zone_change ch)),
      Called (Call (ok_vinyldns_client (new_context tc))
                (Create_zone (zone_request tc ''30.172.in-addr.arpa.'' True i_ok ''ip4.'')) (Some 202))
        (Response 202 (ip4_reverse_zone_change ch)),
      Called (Call (ok_vinyldns_client (new_context tc))
                (Create_zone (zone_request tc ''2.0.192.in-addr.arpa.'' False i_ok ''classless-base.''))
                (Some 202))
        (Response 202 (classless_base_zone_change ch)),
      Called (Call (ok_vinyldns_client (new_context tc))
                (Create_zone (zone_request tc ''192/30.2.0.192.in-addr.arpa.'' False i_ok ''classless.''))
                (Some 202))
        (Response 202 (classless_zone_delegation_change ch)),
      Called (Call (ok_vinyldns_client (new_context tc))
                (Create_zone (zone_request tc ''system-test.'' True i_ok ''system-test.'')) (Some 202))
        (Response 202 (system_test_zone_change ch)),
      Called (Call (ok_vinyldns_client (new_context tc))
                (Create_zone (parent_zone_request tc i_ok)) (Some 202))
        (Response 202 (parent_zone_change ch))]"

text \<open>The nine waits of lines 220 to 228, on the pending changes \<open>ch\<close>.\<close>

definition wait_calls :: "test_context \<Rightarrow> zone_changes \<Rightarrow> call list" where
  "wait_calls tc ch =
     [Call (ok_vinyldns_client (new_context tc)) (Wait_until_zone_exists (system_test_zone_change ch)) None,
      Call (ok_vinyldns_client (new_context tc)) (Wait_until_zone_exists (ok_zone_change ch)) None,
      Call (dummy_vinyldns_client (new_context tc)) (Wait_until_zone_exists (dummy_zone_change ch)) None,
      Call (ok_vinyldns_client (new_context tc)) (Wait_until_zone_exists (ip6_reverse_zone_change ch)) None,
      Call (ok_vinyldns_client (new_context tc)) (Wait_until_zone_exists (ip4_reverse_zone_change ch)) None,
      Call (ok_vinyldns_client (new_context tc)) (Wait_until_zone_exists (classless_base_zone_change ch)) None,
      Call (ok_vinyldns_client (new_context tc))
        (Wait_until_zone_exists (classless_zone_delegation_change ch)) None,
      Call (ok_vinyldns_client (new_context tc)) (Wait_until_zone_exists (system_test_zone_change ch)) None,
      Call (ok_vinyldns_client (new_context tc)) (Wait_until_zone_exists (parent_zone_change ch)) None]"

text \<open>The pending change a call waits for.\<close>

fun awaited_change :: "call \<Rightarrow> json option" where
  "awaited_change (Call c (Wait_until_zone_exists z) st) = Some z"
| "awaited_change _ = None"

text \<open>The number of zones in the reply to \<^verbatim>\<open>list_zones()\<close>, when it has one.\<close>

fun listed_count :: "reply \<Rightarrow> nat option" where
  "listed_count (Response code listing) =
     (case py_getitem listing ''zones'' of
        Inl e \<Rightarrow> None
      | Inr zs \<Rightarrow> (case py_len zs of Inl e \<Rightarrow> None | Inr n \<Rightarrow> Some n))"
| "listed_count (Raises e) = None"

text \<open>A listing whose size is not the one the fixture expects of that user: 2 for the
  second user, 7 for the first.\<close>

fun count_mismatch :: "event \<Rightarrow> bool" where
  "count_mismatch (Called (Call c List_zones st) r) =
     (case listed_count r of
        None \<Rightarrow> False
      | Some n \<Rightarrow> n \<noteq> (if access_key c = ''dummyAccessKey'' then 2 else 7))"
| "count_mismatch _ = False"

text \<open>A statement adds events of one kind only, and leaves the two clients alone,
  whatever its outcome.\<close>

definition emits :: "(event \<Rightarrow> bool) \<Rightarrow> ('w, 'a) prog \<Rightarrow> bool" where
  "emits P m =
     (\<forall>s. ok_vinyldns_client (self (snd (m s))) = ok_vinyldns_client (self s) \<and>
          dummy_vinyldns_client (self (snd (m s))) = dummy_vinyldns_client (self s) \<and>
          (\<exists>ext. trace (snd (m s)) = trace s @ ext \<and> list_all P ext))"

text \<open>A response with a status code other than the one the call asked for.\<close>

fun rejected :: "event \<Rightarrow> bool" where
  "rejected (Called (Call c op (Some n)) (Response code b)) = (code \<noteq> n)"
| "rejected _ = False"

text \<open>The object holds the two clients the constructor made.\<close>

definition clients_ok :: "test_context \<Rightarrow> 'w machine \<Rightarrow> bool" where
  "clients_ok tc s =
     (ok_vinyldns_client (self s) = ok_vinyldns_client (new_context tc) \<and>
      dummy_vinyldns_client (self s) = dummy_vinyldns_client (new_context tc))"

text \<open>Started with these clients, a statement keeps them, and when it adds an event of
  kind \<open>B\<close> to the trace its outcome is a failed assertion.\<close>

definition fails_on :: "test_context \<Rightarrow> (event \<Rightarrow> bool) \<Rightarrow> ('w, 'a) prog \<Rightarrow> bool" where
  "fails_on tc B m =
     (\<forall>s. clients_ok tc s \<longrightarrow>
        clients_ok tc (snd (m s)) \<and>
        (\<exists>ext. trace (snd (m s)) = trace s @ ext \<and>
           (list_ex B ext \<longrightarrow> fst (m s) = Inl AssertionError)))"

section \<open>Models of the remote service\<close>

subsection \<open>Zone creation\<close>

text \<open>
  Modelled from the spec: the service behind \<^verbatim>\<open>create_zone\<close> is not part of this file.
  The spec: \<^verbatim>\<open>create_zone(spec) -> {zone, changeId, status}\<close>; "the create call returns a
  pending zone change record referencing the eventual zone"; "the \<^verbatim>\<open>parent.com.\<close> zone's
  returned representation contains exactly one access rule granting the secondary
  identity Delete-level access". A remote of this kind answers a zone creation as
  \<open>base\<close> does (status, other fields, an exception), except that the \<^verbatim>\<open>zone\<close> of a body
  that is a dictionary is the zone that was requested. All other calls are answered by
  \<open>base\<close>.
\<close>

fun with_zone :: "json \<Rightarrow> reply \<Rightarrow> reply" where
  "with_zone z (Response code (JDict m)) = Response code (JDict (fmupd ''zone'' z m))"
| "with_zone z r = r"

fun requested_zone_respond :: "'w remote \<Rightarrow> call \<Rightarrow> 'w \<Rightarrow> reply \<times> 'w" where
  "requested_zone_respond base (Call c (Create_zone z) st) w =
     (case respond base (Call c (Create_zone z) st) w of (r, w') \<Rightarrow> (with_zone z r, w'))"
| "requested_zone_respond base c w = respond base c w"

definition returning_requested_zone :: "'w remote \<Rightarrow> 'w remote" where
  "returning_requested_zone base =
     \<lparr>respond = requested_zone_respond base, elapse = elapse base\<rparr>"

subsection \<open>Clean-up\<close>

text \<open>
  Modelled from the spec: the helpers \<^verbatim>\<open>clear_zones\<close> and \<^verbatim>\<open>clear_groups\<close> of
  \<^verbatim>\<open>utils\<close> and the service behind \<^verbatim>\<open>update_group\<close> are not part of this file.
  The spec: the helpers "idempotently delete all zones/groups visible to client,
  optionally excluding named groups by id"; a group is "owned by whichever identity
  created it"; tear-down "removes all zones owned by either identity, removes all groups
  owned by either identity except the canonical primary group id".

  The service keeps every zone with the user that owns it and every group with its id
  and the user that owns it. What a user sees is not fixed by the spec, so it is a
  parameter \<open>vis\<close> of the model: \<^verbatim>\<open>clear_zones(client)\<close> deletes every zone the user of
  the client sees, \<^verbatim>\<open>clear_groups(client, exclude)\<close> every group that user sees whose id
  is not excluded. Updating a group that exists answers 200 and replaces its
  representation, updating one that does not answers 404. The users behind the two access
  keys are \<^verbatim>\<open>ok\<close> and \<^verbatim>\<open>dummy\<close>. All other calls are answered by \<open>other\<close>.
\<close>

record service =
  service_zones :: "(string \<times> json) list"
  service_groups :: "(string \<times> string \<times> json) list"

record visibility =
  sees_zone :: "string \<Rightarrow> string \<times> json \<Rightarrow> bool"
  sees_group :: "string \<Rightarrow> string \<times> string \<times> json \<Rightarrow> bool"

definition user_of :: "vinyldns_client \<Rightarrow> string" where
  "user_of c =
     (if access_key c = ''okAccessKey'' then ''ok''
      else if access_key c = ''dummyAccessKey'' then ''dummy''
      else access_key c)"

fun cleanup_respond ::
  "visibility \<Rightarrow> (call \<Rightarrow> service \<Rightarrow> reply \<times> service) \<Rightarrow> call \<Rightarrow> service \<Rightarrow> reply \<times> service" where
  "cleanup_respond vis other (Call c Clear_zones st) w =
     (Response 200 JNull,
      w\<lparr>service_zones := filter (\<lambda>e. \<not> sees_zone vis (user_of c) e) (service_zones w)\<rparr>)"
| "cleanup_respond vis other (Call c (Clear_groups exclude) st) w =
     (Response 200 JNull,
      w\<lparr>service_groups :=
           filter (\<lambda>e. \<not> (sees_group vis (user_of c) e \<and> fst e \<notin> set exclude))
             (service_groups w)\<rparr>)"
| "cleanup_respond vis other (Call c (Update_group i g) st) w =
     (if i \<in> set (map fst (service_groups w))
      then (Response 200 g,
            w\<lparr>service_groups :=
                 map (\<lambda>(j, owner, old). if j = i then (j, owner, g) else (j, owner, old))
                   (service_groups w)\<rparr>)
      else (Response 404 JNull, w))"
| "cleanup_respond vis other c w = other c w"

definition cleanup_service ::
  "visibility \<Rightarrow> (call \<Rightarrow> service \<Rightarrow> reply \<times> service) \<Rightarrow> service remote" where
  "cleanup_service vis other = \<lparr>respond = cleanup_respond vis other, elapse = (\<lambda>ms w. w)\<rparr>"

text \<open>What the spec does say of visibility: tear-down removes what the two users own, so
  a user sees the zones and the groups it owns.\<close>

definition owner_sees :: "visibility \<Rightarrow> bool" where
  "owner_sees vis =
     ((\<forall>u z. sees_zone vis u (u, z)) \<and> (\<forall>u i g. sees_group vis u (i, u, g)))"

text \<open>The users a group names: the ids under \<^verbatim>\<open>members\<close> and under \<^verbatim>\<open>admins\<close>.\<close>

fun id_of :: "json \<Rightarrow> string list" where
  "id_of (JDict m) = (case fmlookup m ''id'' of Some (JStr u) \<Rightarrow> [u] | _ \<Rightarrow> [])"
| "id_of _ = []"

definition ids_under :: "json \<Rightarrow> string \<Rightarrow> string list" where
  "ids_under g key =
     (case py_getitem g key of Inr (JList xs) \<Rightarrow> concat (map id_of xs) | _ \<Rightarrow> [])"

definition named_in :: "json \<Rightarrow> string list" where
  "named_in g = ids_under g ''members'' @ ids_under g ''admins''"

text \<open>The users the rules of a zone's \<^verbatim>\<open>acl\<close> name.\<close>

fun user_of_rule :: "json \<Rightarrow> string list" where
  "user_of_rule (JDict m) = (case fmlookup m ''userId'' of Some (JStr u) \<Rightarrow> [u] | _ \<Rightarrow> [])"
| "user_of_rule _ = []"

definition acl_users :: "json \<Rightarrow> string list" where
  "acl_users z =
     (case py_getitem z ''acl'' of
        Inr a \<Rightarrow> (case py_getitem a ''rules'' of
                    Inr (JList rs) \<Rightarrow> concat (map user_of_rule rs)
                  | _ \<Rightarrow> [])
      | _ \<Rightarrow> [])"

text \<open>A user sees a group at most when it owns it or the group names it.\<close>

definition at_most_named :: "visibility \<Rightarrow> bool" where
  "at_most_named vis =
     (\<forall>u i owner g. sees_group vis u (i, owner, g) \<longrightarrow> owner = u \<or> u \<in> set (named_in g))"

text \<open>One such visibility: a user sees the zones it owns and those whose \<^verbatim>\<open>acl\<close> names
  it (as the second user sees \<^verbatim>\<open>parent.com.\<close> in the fixture), and the groups it owns
  and those that name it.\<close>

definition by_membership :: visibility where
  "by_membership =
     \<lparr>sees_zone = (\<lambda>u (owner, z). owner = u \<or> u \<in> set (acl_users z)),
      sees_group = (\<lambda>u (i, owner, g). owner = u \<or> u \<in> set (named_in g))\<rparr>"

text \<open>What the five calls of \<^verbatim>\<open>tear_down\<close> make of a state of this service: the two
  \<^verbatim>\<open>clear_zones\<close>, the two \<^verbatim>\<open>clear_groups\<close>, then the update of the group \<^verbatim>\<open>ok\<close>.\<close>

definition swept :: "visibility \<Rightarrow> service \<Rightarrow> service" where
  "swept vis w =
     \<lparr>service_zones =
        filter (\<lambda>e. \<not> sees_zone vis ''ok'' e)
          (filter (\<lambda>e. \<not> sees_zone vis ''dummy'' e) (service_zones w)),
      service_groups =
        map (\<lambda>(j, owner, old). if j = ''ok'' then (j, owner, baseline_ok_group) else (j, owner, old))
          (filter (\<lambda>e. \<not> (sees_group vis ''ok'' e \<and> fst e \<notin> set [''ok'']))
            (filter (\<lambda>e. \<not> (sees_group vis ''dummy'' e \<and> fst e \<notin> set []))
              (service_groups w)))\<rparr>"

section \<open>Concrete remotes and runs\<close>

text \<open>A remote that answers from a fixed script, one reply per call.\<close>

definition scripted :: "(reply list) remote" where
  "scripted =
     \<lparr>respond = (\<lambda>c w. case w of [] \<Rightarrow> (Raises (Failure 0), []) | r # rs \<Rightarrow> (r, rs)),
      elapse = (\<lambda>ms w. w)\<rparr>"

text \<open>A remote on which a membership never shows: every listing is empty.\<close>

definition unconverged :: "unit remote" where
  "unconverged = \<lparr>respond = (\<lambda>c w. (Response 200 (JList []), w)), elapse = (\<lambda>ms w. w)\<rparr>"

definition tc0 :: test_context where
  "tc0 = \<lparr>vinyldns_url = ''http://localhost:9000'', dns_key_name = ''vinyldns.'',
          dns_key = ''nzisn+4G2ldMn0q1CV3vsg=='', dns_ip = ''127.0.0.1:19001''\<rparr>"

definition g_dummy :: json where
  "g_dummy = dict [(''id'', JStr ''dummy-group-id''), (''name'', JStr ''dummy-group'')]"

definition zone_named :: "string \<Rightarrow> json" where
  "zone_named nm = dict [(''name'', JStr nm), (''status'', JStr ''Pending'')]"

definition change_of :: "string \<Rightarrow> json" where
  "change_of nm = dict [(''zone'', zone_named nm), (''status'', JStr ''Pending'')]"

text \<open>The replies to a clean-up that goes through.\<close>

definition cleanup_replies :: "reply list" where
  "cleanup_replies =
    [Response 200 JNull, Response 200 JNull, Response 200 JNull, Response 200 JNull,
     Response 200 baseline_ok_group]"

text \<open>The replies up to the second group's confirmation; the second user's membership
  shows at the second listing.\<close>

definition group_replies :: "reply list" where
  "group_replies = cleanup_replies @
    [Response 200 baseline_ok_group,
     Response 200 (JList [baseline_ok_group]),
     Response 200 g_dummy,
     Response 200 (JList []),
     Response 200 (JList [g_dummy])]"

text \<open>The replies up to the two listings of a run in which every call is answered as
  the fixture expects.\<close>

definition happy_prefix :: "reply list" where
  "happy_prefix = group_replies @
    [Response 202 (change_of ''ok.''),
     Response 202 (change_of ''dummy.''),
     Response 202 (change_of ''1.9.e.f.c.c.7.2.9.6.d.f.ip6.arpa.''),
     Response 202 (change_of ''30.172.in-addr.arpa.''),
     Response 202 (change_of ''2.0.192.in-addr.arpa.''),
     Response 202 (change_of ''192/30.2.0.192.in-addr.arpa.''),
     Response 202 (change_of ''system-test.''),
     Response 202 (change_of ''parent.com.''),
     Response 200 JNull, Response 200 JNull, Response 200 JNull, Response 200 JNull,
     Response 200 JNull, Response 200 JNull, Response 200 JNull, Response 200 JNull,
     Response 200 JNull]"

definition ok_zones_listed :: "json list" where
  "ok_zones_listed =
     [zone_named ''ok.'', zone_named ''1.9.e.f.c.c.7.2.9.6.d.f.ip6.arpa.'',
      zone_named ''30.172.in-addr.arpa.'', zone_named ''2.0.192.in-addr.arpa.'',
      zone_named ''192/30.2.0.192.in-addr.arpa.'', zone_named ''system-test.'',
      zone_named ''parent.com.'']"

definition happy_script :: "reply list" where
  "happy_script = happy_prefix @
     [Response 200 (dict [(''zones'', JList [zone_named ''dummy.'', zone_named ''parent.com.''])]),
      Response 200 (dict [(''zones'', JList ok_zones_listed)])]"

text \<open>The same run with a zone left over from an earlier run in the first user's listing.\<close>

definition leaked_script :: "reply list" where
  "leaked_script = happy_prefix @
     [Response 200 (dict [(''zones'', JList [zone_named ''dummy.'', zone_named ''parent.com.''])]),
      Response 200 (dict [(''zones'', JList (zone_named ''old.'' # ok_zones_listed))])] @
     cleanup_replies"

text \<open>A run in which the first zone creation is answered with 200 instead of 202.\<close>

definition rejected_script :: "reply list" where
  "rejected_script = group_replies @ [Response 200 (change_of ''ok.'')] @ cleanup_replies"

text \<open>A run in which the canonical group is not found and the clean-up that follows
  fails at its first call.\<close>

definition failing_script :: "reply list" where
  "failing_script = cleanup_replies @ [Response 404 JNull, Raises (Failure 7)]"



text \<open>A service with zones and groups of both users left over, a zone and a group of a
  third user that name the second user, and a zone and a group of the third user that do
  not. The group \<^verbatim>\<open>ok\<close> names the first and the third user.\<close>

definition dirty_service :: service where
  "dirty_service =
     \<lparr>service_zones =
        [(''ok'', zone_named ''ok.''),
         (''dummy'', zone_named ''dummy.''),
         (''other'', zone_named ''other.''),
         (''other'', dict [(''name'', JStr ''granted.''),
            (''acl'', dict [(''rules'', JList [dict [(''userId'', JStr ''dummy'')]])])]),
         (''ok'', zone_named ''parent.com.'')],
      service_groups =
        [(''ok'', ''ok'', dict [(''id'', JStr ''ok''), (''members'', JList
            [dict [(''id'', JStr ''ok'')], dict [(''id'', JStr ''other'')]])]),
         (''dummy-group-id'', ''dummy'', g_dummy),
         (''other-group'', ''other'', dict [(''id'', JStr ''other-group'')]),
         (''joint'', ''other'', dict [(''id'', JStr ''joint''), (''members'', JList
            [dict [(''id'', JStr ''other'')], dict [(''id'', JStr ''dummy'')]])]),
         (''leftover'', ''ok'', dict [(''id'', JStr ''leftover'')])]\<rparr>"

definition no_other :: "call \<Rightarrow> service \<Rightarrow> reply \<times> service" where
  "no_other c w = (Raises (Failure 0), w)"

section \<open>Running statements\<close>

declare confirm_loop.simps [simp del]

lemma and_then_InrE:
  assumes "and_then m f s = (Inr y, s')"
  obtains x s1 where "m s = (Inr x, s1)" "f x s1 = (Inr y, s')"
  using assms by (auto simp: and_then_def split: prod.splits sum.splits)

lemma return_eq [simp]: "return x s = (r, s') \<longleftrightarrow> r = Inr x \<and> s' = s"
  by (auto simp: return_def)

lemma raise_eq [simp]: "raise e s = (r, s') \<longleftrightarrow> r = Inl e \<and> s' = s"
  by (auto simp: raise_def)

lemma read_eq [simp]: "read f s = (r, s') \<longleftrightarrow> r = Inr (f (self s)) \<and> s' = s"
  by (auto simp: read_def)

lemma lift_eq [simp]: "lift v s = (r, s') \<longleftrightarrow> v = r \<and> s' = s"
  by (auto simp: lift_def)

lemma assign_eq [simp]: "assign f s = (r, s') \<longleftrightarrow> r = Inr () \<and> s' = s\<lparr>self := f (self s)\<rparr>"
  by (auto simp: assign_def)

lemma assert_that_Inr [simp]: "assert_that b s = (Inr u, s') \<longleftrightarrow> b \<and> s' = s"
  by (auto simp: assert_that_def)

lemma invoke_InrE:
  assumes "invoke env c op st s = (Inr b, s')"
  obtains code where "status_accepted st code"
    "trace s' = trace s @ [Called (Call c op st) (Response code b)]"
    "self s' = self s"
  using assms by (auto simp: invoke_def Let_def split: prod.splits reply.splits if_splits)

subsection \<open>What a statement adds to the trace\<close>

lemma emitsD:
  assumes "emits P m" and "m s = (r, s')"
  shows "ok_vinyldns_client (self s') = ok_vinyldns_client (self s)"
    and "dummy_vinyldns_client (self s') = dummy_vinyldns_client (self s)"
    and "\<exists>ext. trace s' = trace s @ ext \<and> list_all P ext"
  using assms unfolding emits_def by (metis snd_conv)+

lemma emits_and_then:
  assumes "emits P m" and "\<And>x. emits P (f x)"
  shows "emits P (and_then m f)"
  unfolding emits_def
proof (intro allI)
  fix s :: "'a machine"
  obtain r s1 where ms: "m s = (r, s1)" by (cases "m s")
  from emitsD[OF assms(1) ms] obtain e1 where
    1: "ok_vinyldns_client (self s1) = ok_vinyldns_client (self s)"
       "dummy_vinyldns_client (self s1) = dummy_vinyldns_client (self s)"
       "trace s1 = trace s @ e1" "list_all P e1"
    by blast
  show "ok_vinyldns_client (self (snd (and_then m f s))) = ok_vinyldns_client (self s) \<and>
        dummy_vinyldns_client (self (snd (and_then m f s))) = dummy_vinyldns_client (self s) \<and>
        (\<exists>ext. trace (snd (and_then m f s)) = trace s @ ext \<and> list_all P ext)"
  proof (cases r)
    case (Inl e)
    with ms have "and_then m f s = (Inl e, s1)" by (simp add: and_then_def)
    with 1 show ?thesis by simp
  next
    case (Inr x)
    with ms have eq: "and_then m f s = f x s1" by (simp add: and_then_def)
    obtain r2 s2 where fs: "f x s1 = (r2, s2)" by (cases "f x s1")
    from emitsD[OF assms(2) fs] obtain e2 where
      2: "ok_vinyldns_client (self s2) = ok_vinyldns_client (self s1)"
         "dummy_vinyldns_client (self s2) = dummy_vinyldns_client (self s1)"
         "trace s2 = trace s1 @ e2" "list_all P e2"
      by blast
    have "trace s2 = trace s @ (e1 @ e2) \<and> list_all P (e1 @ e2)"
      using 1 2 by simp
    then have "\<exists>ext. trace s2 = trace s @ ext \<and> list_all P ext" by blast
    moreover have "snd (and_then m f s) = s2" using eq fs by simp
    ultimately show ?thesis using 1(1,2) 2(1,2) by simp
  qed
qed

lemma emits_return [simp]: "emits P (return x)"
  by (simp add: emits_def return_def)

lemma emits_raise [simp]: "emits P (raise e)"
  by (simp add: emits_def raise_def)

lemma emits_read [simp]: "emits P (read f)"
  by (simp add: emits_def read_def)

lemma emits_lift [simp]: "emits P (lift v)"
  by (simp add: emits_def lift_def)

lemma emits_assert_that [simp]: "emits P (assert_that b)"
  by (simp add: assert_that_def)

lemma emits_assign:
  assumes "\<And>x. ok_vinyldns_client (f x) = ok_vinyldns_client x"
    and "\<And>x. dummy_vinyldns_client (f x) = dummy_vinyldns_client x"
  shows "emits P (assign f)"
  using assms by (simp add: emits_def assign_def)

lemma emits_time_sleep: "P (Slept ms) \<Longrightarrow> emits P (time_sleep env ms)"
  by (simp add: emits_def time_sleep_def)

lemma emits_invoke:
  assumes "\<And>r. P (Called (Call c op st) r)"
  shows "emits P (invoke env c op st)"
  using assms by (auto simp: emits_def invoke_def Let_def split: prod.splits reply.splits)

lemma emits_mono:
  assumes "emits P m" and "\<And>e. P e \<Longrightarrow> Q e"
  shows "emits Q m"
  using assms unfolding emits_def list_all_iff by metis

lemma emits_list_all_my_groups:
  assumes "\<And>r. P (Called (Call c List_all_my_groups (Some st)) r)"
  shows "emits P (list_all_my_groups env c st)"
  unfolding list_all_my_groups_def
proof (rule emits_and_then)
  show "emits P (invoke env c List_all_my_groups (Some st))"
    using assms by (rule emits_invoke)
  show "emits P (case x of JList gs \<Rightarrow> return gs | _ \<Rightarrow> raise TypeError)" for x
    by (cases x) simp_all
qed

lemma confirm_loop_stop:
  "\<not> (retries \<ge> 0 \<and> \<not> success) \<Longrightarrow> confirm_loop env c g retries success s = (Inr success, s)"
  by (subst confirm_loop.simps) auto

lemma confirm_loop_step:
  "retries \<ge> 0 \<Longrightarrow> \<not> success \<Longrightarrow>
   confirm_loop env c g retries success s =
     (case list_all_my_groups env c 200 s of
        (Inl e, s1) \<Rightarrow> (Inl e, s1)
      | (Inr gs, s1) \<Rightarrow> confirm_loop env c g (retries - 1) (g \<in> set gs) (snd (time_sleep env 50 s1)))"
  by (subst confirm_loop.simps) (simp add: time_sleep_def split: prod.splits sum.splits)

lemma confirm_loop_emits_aux:
  shows "confirm_loop env c g n b s = (r, s') \<Longrightarrow>
     (\<And>r. P (Called (Call c List_all_my_groups (Some 200)) r)) \<Longrightarrow> P (Slept 50) \<Longrightarrow>
     ok_vinyldns_client (self s') = ok_vinyldns_client (self s) \<and>
     dummy_vinyldns_client (self s') = dummy_vinyldns_client (self s) \<and>
     (\<exists>ext. trace s' = trace s @ ext \<and> list_all P ext)"
proof (induction env c g n b s arbitrary: r s' rule: confirm_loop.induct)
  case (1 env client grp retries success s)
  show ?case
  proof (cases "retries \<ge> 0 \<and> \<not> success")
    case False
    with "1.prems" show ?thesis by (simp add: confirm_loop_stop)
  next
    case True
    obtain r1 s1 where l: "list_all_my_groups env client 200 s = (r1, s1)"
      by (cases "list_all_my_groups env client 200 s")
    have el: "emits P (list_all_my_groups env client 200)"
      using "1.prems"(2) by (intro emits_list_all_my_groups)
    note d1 = emitsD[OF el l]
    show ?thesis
    proof (cases r1)
      case (Inl e)
      with True l "1.prems"(1) have "s' = s1"
        by (simp add: confirm_loop_step)
      with d1 show ?thesis by simp
    next
      case (Inr gs)
      obtain r2 s2 where sl: "time_sleep env 50 s1 = (r2, s2)" by (cases "time_sleep env 50 s1")
      have es: "emits P (time_sleep env 50)" using "1.prems"(3) by (rule emits_time_sleep)
      note d2 = emitsD[OF es sl]
      from True l Inr sl "1.prems"(1)
      have rec: "confirm_loop env client grp (retries - 1) (grp \<in> set gs) s2 = (r, s')"
        by (simp add: confirm_loop_step)
      from "1.IH"[OF True l[symmetric] Inr sl[symmetric] rec "1.prems"(2,3)]
      have ih: "ok_vinyldns_client (self s') = ok_vinyldns_client (self s2) \<and>
        dummy_vinyldns_client (self s') = dummy_vinyldns_client (self s2) \<and>
        (\<exists>ext. trace s' = trace s2 @ ext \<and> list_all P ext)" .
      from d1(3) obtain e1 where e1: "trace s1 = trace s @ e1" "list_all P e1" by blast
      from d2(3) obtain e2 where e2: "trace s2 = trace s1 @ e2" "list_all P e2" by blast
      from ih obtain e3 where e3: "trace s' = trace s2 @ e3" "list_all P e3" by blast
      have "trace s' = trace s @ (e1 @ e2 @ e3) \<and> list_all P (e1 @ e2 @ e3)"
        using e1 e2 e3 by simp
      then have "\<exists>ext. trace s' = trace s @ ext \<and> list_all P ext" by blast
      with ih d1 d2 show ?thesis by simp
    qed
  qed
qed

lemma emits_confirm_loop:
  assumes "\<And>r. P (Called (Call c List_all_my_groups (Some 200)) r)" and "P (Slept 50)"
  shows "emits P (confirm_loop env c g n b)"
  unfolding emits_def
proof (intro allI)
  fix s :: "'a machine"
  obtain r s' where "confirm_loop env c g n b s = (r, s')" by (cases "confirm_loop env c g n b s")
  from confirm_loop_emits_aux[OF this assms] this
  show "ok_vinyldns_client (self (snd (confirm_loop env c g n b s))) = ok_vinyldns_client (self s) \<and>
        dummy_vinyldns_client (self (snd (confirm_loop env c g n b s))) = dummy_vinyldns_client (self s) \<and>
        (\<exists>ext. trace (snd (confirm_loop env c g n b s)) = trace s @ ext \<and> list_all P ext)"
    by simp
qed

lemma emits_confirm_member_in_group:
  assumes "\<And>r. P (Called (Call c List_all_my_groups (Some 200)) r)" and "P (Slept 50)"
  shows "emits P (confirm_member_in_group env c g)"
  unfolding confirm_member_in_group_def
  by (intro emits_and_then emits_list_all_my_groups emits_confirm_loop emits_assert_that assms)

lemma emits_tear_down: "emits (\<lambda>e. \<not> zone_event e) (tear_down env)"
  unfolding tear_down_def clear_zones_def clear_groups_def update_group_def
  by (intro emits_and_then emits_invoke emits_read emits_return) (simp_all add: zone_event_def)

lemma emits_setup_groups: "emits (\<lambda>e. \<not> zone_event e) (setup_groups env)"
  unfolding setup_groups_def get_group_def create_group_def
  by (intro emits_and_then emits_invoke emits_read emits_assign emits_confirm_member_in_group)
     (simp_all add: zone_event_def)

lemma emits_create_zones: "emits is_create_zone (create_zones env tc)"
  unfolding create_zones_def create_zone_as_def create_zone_def
  by (intro emits_and_then emits_invoke emits_read emits_assign emits_lift emits_return) simp_all

lemma emits_await_zones: "emits is_wait (await_zones env ch)"
  unfolding await_zones_def wait_until_zone_exists_def
  by (intro emits_and_then emits_invoke emits_read emits_return) simp_all

lemma emits_validate_zones: "emits is_list_zones (validate_zones env)"
  unfolding validate_zones_def list_zones_def
  by (intro emits_and_then emits_invoke emits_read emits_lift emits_assert_that) simp_all

subsection \<open>Events that end in a failed assertion\<close>

lemma fails_onD:
  assumes "fails_on tc B m" and "clients_ok tc s" and "m s = (r, s')"
  shows "clients_ok tc s'" and "\<exists>ext. trace s' = trace s @ ext \<and> (list_ex B ext \<longrightarrow> r = Inl AssertionError)"
  using assms unfolding fails_on_def by (metis fst_conv snd_conv)+

lemma fails_onI:
  assumes "\<And>s r s'. clients_ok tc s \<Longrightarrow> m s = (r, s') \<Longrightarrow>
     clients_ok tc s' \<and> (\<exists>ext. trace s' = trace s @ ext \<and> (list_ex B ext \<longrightarrow> r = Inl AssertionError))"
  shows "fails_on tc B m"
  unfolding fails_on_def
proof (intro allI impI)
  fix s :: "'a machine" assume c: "clients_ok tc s"
  obtain r s' where ms: "m s = (r, s')" by (cases "m s")
  from assms[OF c ms] ms
  show "clients_ok tc (snd (m s)) \<and>
        (\<exists>ext. trace (snd (m s)) = trace s @ ext \<and> (list_ex B ext \<longrightarrow> fst (m s) = Inl AssertionError))"
    by simp
qed

lemma fails_on_and_then:
  assumes "fails_on tc B m" and "\<And>x. fails_on tc B (f x)"
  shows "fails_on tc B (and_then m f)"
proof (rule fails_onI)
  fix s :: "'a machine" and r s'
  assume c: "clients_ok tc s" and run: "and_then m f s = (r, s')"
  obtain r1 s1 where ms: "m s = (r1, s1)" by (cases "m s")
  from fails_onD[OF assms(1) c ms] obtain e1 where
    1: "clients_ok tc s1" "trace s1 = trace s @ e1" "list_ex B e1 \<longrightarrow> r1 = Inl AssertionError"
    by blast
  show "clients_ok tc s' \<and> (\<exists>ext. trace s' = trace s @ ext \<and> (list_ex B ext \<longrightarrow> r = Inl AssertionError))"
  proof (cases r1)
    case (Inl e)
    with ms run have "r = Inl e" "s' = s1" by (simp_all add: and_then_def)
    with 1 Inl show ?thesis by auto
  next
    case (Inr x)
    with ms run have fs: "f x s1 = (r, s')" by (simp add: and_then_def)
    from fails_onD[OF assms(2) 1(1) fs] obtain e2 where
      2: "clients_ok tc s'" "trace s' = trace s1 @ e2" "list_ex B e2 \<longrightarrow> r = Inl AssertionError"
      by blast
    from Inr 1(3) have "\<not> list_ex B e1" by auto
    then have "list_ex B (e1 @ e2) \<longrightarrow> r = Inl AssertionError" using 2(3) by simp
    moreover have "trace s' = trace s @ (e1 @ e2)" using 1(2) 2(2) by simp
    ultimately show ?thesis using 2(1) by blast
  qed
qed

lemma fails_on_emits:
  assumes "emits P m" and "\<And>e. P e \<Longrightarrow> \<not> B e"
  shows "fails_on tc B m"
proof (rule fails_onI)
  fix s :: "'a machine" and r s'
  assume c: "clients_ok tc s" and run: "m s = (r, s')"
  from emitsD[OF assms(1) run] obtain ext where
    1: "ok_vinyldns_client (self s') = ok_vinyldns_client (self s)"
       "dummy_vinyldns_client (self s') = dummy_vinyldns_client (self s)"
       "trace s' = trace s @ ext" "list_all P ext"
    by blast
  from 1(4) assms(2) have "\<not> list_ex B ext" by (auto simp: list_all_iff list_ex_iff)
  with 1 c show "clients_ok tc s' \<and> (\<exists>ext. trace s' = trace s @ ext \<and> (list_ex B ext \<longrightarrow> r = Inl AssertionError))"
    by (auto simp: clients_ok_def)
qed

lemma fails_on_invoke:
  assumes "\<And>e. B e \<Longrightarrow> rejected e"
  shows "fails_on tc B (invoke env c op st)"
proof (rule fails_onI)
  fix s :: "'a machine" and r s'
  assume c: "clients_ok tc s" and run: "invoke env c op st s = (r, s')"
  obtain rep w' where rp: "respond env (Call c op st) (world s) = (rep, w')"
    by (cases "respond env (Call c op st) (world s)")
  have t: "trace s' = trace s @ [Called (Call c op st) rep]" and f: "self s' = self s"
    using run rp by (auto simp: invoke_def Let_def split: reply.splits if_splits)
  have "r = Inl AssertionError" if "B (Called (Call c op st) rep)"
  proof -
    from assms[OF that] have "rejected (Called (Call c op st) rep)" .
    then show ?thesis using run rp
      by (cases st; cases rep) (auto simp: invoke_def Let_def)
  qed
  with t f c show "clients_ok tc s' \<and> (\<exists>ext. trace s' = trace s @ ext \<and> (list_ex B ext \<longrightarrow> r = Inl AssertionError))"
    by (auto simp: clients_ok_def)
qed

lemma fails_on_guarded_body:
  assumes "fails_on tc B (fixture_body env tc)" and "\<And>e. B e \<Longrightarrow> zone_event e"
  shows "fails_on tc B (guarded_body env tc)"
proof (rule fails_onI)
  fix s :: "'a machine" and r s'
  assume c: "clients_ok tc s" and run: "guarded_body env tc s = (r, s')"
  obtain r1 s1 where b: "fixture_body env tc s = (r1, s1)" by (cases "fixture_body env tc s")
  from fails_onD[OF assms(1) c b] obtain e1 where
    1: "clients_ok tc s1" "trace s1 = trace s @ e1" "list_ex B e1 \<longrightarrow> r1 = Inl AssertionError"
    by blast
  show "clients_ok tc s' \<and> (\<exists>ext. trace s' = trace s @ ext \<and> (list_ex B ext \<longrightarrow> r = Inl AssertionError))"
  proof (cases r1)
    case (Inr u)
    with b run have "r = r1" "s' = s1" by (simp_all add: guarded_body_def)
    with 1 show ?thesis by blast
  next
    case (Inl e)
    obtain r2 s2 where td: "tear_down env s1 = (r2, s2)" by (cases "tear_down env s1")
    with Inl b run have rs: "r = Inl e" "s' = s2" by (simp_all add: guarded_body_def)
    have "fails_on tc B (tear_down env)"
      by (rule fails_on_emits[OF emits_tear_down]) (use assms(2) in auto)
    from fails_onD[OF this 1(1) td] obtain e2 where
      2: "clients_ok tc s2" "trace s2 = trace s1 @ e2" "list_ex B e2 \<longrightarrow> r2 = Inl AssertionError"
      by blast
    have "\<not> list_ex B e2"
    proof -
      from emitsD(3)[OF emits_tear_down td] obtain e2' where
        "trace s2 = trace s1 @ e2'" "list_all (\<lambda>e. \<not> zone_event e) e2'" by blast
      with 2(2) assms(2) show ?thesis by (auto simp: list_all_iff list_ex_iff)
    qed
    then have "list_ex B (e1 @ e2) \<longrightarrow> r = Inl AssertionError" using 1(3) rs(1) Inl by auto
    moreover have "trace s' = trace s @ (e1 @ e2)" using 1(2) 2(2) rs(2) by simp
    ultimately show ?thesis using 2(1) rs(2) by blast
  qed
qed

lemma fails_on_init:
  assumes "fails_on tc B (fixture_body env tc)" and "\<And>e. B e \<Longrightarrow> zone_event e"
    and "init env tc w = (r, s)"
  shows "list_ex B (trace s) \<longrightarrow> r = Inl AssertionError"
proof -
  have "fails_on tc B (tear_down env)"
    by (rule fails_on_emits[OF emits_tear_down]) (use assms(2) in auto)
  then have "fails_on tc B (and_then (tear_down env) (\<lambda>_. guarded_body env tc))"
    using fails_on_guarded_body[OF assms(1,2)] by (intro fails_on_and_then)
  moreover have "clients_ok tc (start tc w)" by (simp add: clients_ok_def start_def)
  ultimately obtain ext where "trace s = trace (start tc w) @ ext"
    "list_ex B ext \<longrightarrow> r = Inl AssertionError"
    using assms(3) unfolding init_def by (blast dest: fails_onD(2))
  then show ?thesis by (simp add: start_def)
qed

subsection \<open>A constructor call that returns\<close>

lemma create_zone_as_InrE:
  assumes "create_zone_as env cf gf req store s = (Inr b, s')"
  obtains g z where
    "py_getitem (gf (self s)) ''id'' = Inr g"
    "py_getitem b ''zone'' = Inr z"
    "trace s' = trace s @ [Called (Call (cf (self s)) (Create_zone (req g)) (Some 202)) (Response 202 b)]"
    "self s' = store z (self s)"
  using assms unfolding create_zone_as_def create_zone_def
  by (elim and_then_InrE invoke_InrE) auto

lemma create_zones_Inr:
  assumes "create_zones env tc s = (Inr ch, s')"
    and "ok_vinyldns_client (self s) = ok_vinyldns_client (new_context tc)"
    and "dummy_vinyldns_client (self s) = dummy_vinyldns_client (new_context tc)"
  shows "\<exists>g1 g2 z1 z2 z3 z4 z5 z6 z7 z8.
     py_getitem (ok_group (self s)) ''id'' = Inr g1 \<and>
     py_getitem (dummy_group (self s)) ''id'' = Inr g2 \<and>
     trace s' = trace s @ creation_events tc g1 g2 ch \<and>
     py_getitem (ok_zone_change ch) ''zone'' = Inr z1 \<and>
     py_getitem (dummy_zone_change ch) ''zone'' = Inr z2 \<and>
     py_getitem (ip6_reverse_zone_change ch) ''zone'' = Inr z3 \<and>
     py_getitem (ip4_reverse_zone_change ch) ''zone'' = Inr z4 \<and>
     py_getitem (classless_base_zone_change ch) ''zone'' = Inr z5 \<and>
     py_getitem (classless_zone_delegation_change ch) ''zone'' = Inr z6 \<and>
     py_getitem (system_test_zone_change ch) ''zone'' = Inr z7 \<and>
     py_getitem (parent_zone_change ch) ''zone'' = Inr z8 \<and>
     self s' = (self s)\<lparr>ok_zone := Some z1, dummy_zone := Some z2, ip6_reverse_zone := Some z3,
        ip4_reverse_zone := Some z4, classless_base_zone := Some z5,
        classless_zone_delegation_zone := Some z6, system_test_zone := Some z7,
        parent_zone := Some z8\<rparr>"
  using assms unfolding create_zones_def creation_events_def
  apply (elim and_then_InrE create_zone_as_InrE)
  apply simp
  done

lemma wait_until_zone_exists_InrE:
  assumes "wait_until_zone_exists env c z s = (Inr b, s')"
  obtains ev where "trace s' = trace s @ [ev]" "call_of ev = Some (Call c (Wait_until_zone_exists z) None)"
    "returned ev" "self s' = self s"
  using assms unfolding wait_until_zone_exists_def
  by (elim invoke_InrE) auto

lemma await_zones_Inr:
  assumes "await_zones env ch s = (Inr u, s')"
    and "ok_vinyldns_client (self s) = ok_vinyldns_client (new_context tc)"
    and "dummy_vinyldns_client (self s) = dummy_vinyldns_client (new_context tc)"
  shows "\<exists>ws. trace s' = trace s @ ws \<and> map call_of ws = map Some (wait_calls tc ch) \<and>
     list_all returned ws \<and> self s' = self s"
  using assms unfolding await_zones_def wait_calls_def
  apply (elim and_then_InrE wait_until_zone_exists_InrE)
  apply simp
  done

lemma list_zones_InrE:
  assumes "list_zones env c s = (Inr b, s')"
  obtains code where "trace s' = trace s @ [Called (Call c List_zones None) (Response code b)]"
    "self s' = self s"
  using assms unfolding list_zones_def
  by (elim invoke_InrE) auto

lemma listed_count_Response:
  "py_getitem b ''zones'' = Inr zs \<Longrightarrow> py_len zs = Inr n \<Longrightarrow> listed_count (Response code b) = Some n"
  by simp

lemma validate_zones_Inr:
  assumes "validate_zones env s = (Inr u, s')"
    and "ok_vinyldns_client (self s) = ok_vinyldns_client (new_context tc)"
    and "dummy_vinyldns_client (self s) = dummy_vinyldns_client (new_context tc)"
  shows "\<exists>ra rb. trace s' = trace s @
        [Called (Call (dummy_vinyldns_client (new_context tc)) List_zones None) ra,
         Called (Call (ok_vinyldns_client (new_context tc)) List_zones None) rb] \<and>
     listed_count ra = Some 2 \<and> listed_count rb = Some 7 \<and> self s' = self s"
  using assms unfolding validate_zones_def
  apply (elim and_then_InrE list_zones_InrE)
  apply (simp del: listed_count.simps)
  apply (auto simp: listed_count_Response simp del: listed_count.simps)
  done

lemma init_InrE:
  assumes "init env tc w = (Inr u, s)"
  obtains s1 s2 ch s3 s4 where
    "tear_down env (start tc w) = (Inr (), s1)"
    "setup_groups env s1 = (Inr (), s2)"
    "create_zones env tc s2 = (Inr ch, s3)"
    "await_zones env ch s3 = (Inr (), s4)"
    "validate_zones env s4 = (Inr (), s)"
proof -
  from assms obtain s1 where td: "tear_down env (start tc w) = (Inr (), s1)"
    and gb: "guarded_body env tc s1 = (Inr u, s)"
    unfolding init_def by (elim and_then_InrE) simp
  from gb have "fixture_body env tc s1 = (Inr (), s)"
    by (auto simp: guarded_body_def split: prod.splits sum.splits)
  then obtain s2 ch s3 s4 where
    "setup_groups env s1 = (Inr (), s2)"
    "create_zones env tc s2 = (Inr ch, s3)"
    "await_zones env ch s3 = (Inr (), s4)"
    "validate_zones env s4 = (Inr (), s)"
    unfolding fixture_body_def by (elim and_then_InrE) simp
  with td show ?thesis by (rule that)
qed

lemma init_success_shape:
  assumes "init env tc w = (Inr u, s)"
  obtains pre g1 g2 ch ws ra rb z1 z2 z3 z4 z5 z6 z7 z8 where
    "trace s = pre @ creation_events tc g1 g2 ch @ ws @
       [Called (Call (dummy_vinyldns_client (new_context tc)) List_zones None) ra,
        Called (Call (ok_vinyldns_client (new_context tc)) List_zones None) rb]"
    "list_all (\<lambda>e. \<not> zone_event e) pre"
    "map call_of ws = map Some (wait_calls tc ch)"
    "list_all returned ws"
    "listed_count ra = Some 2"
    "listed_count rb = Some 7"
    "py_getitem (ok_zone_change ch) ''zone'' = Inr z1 \<and>
     py_getitem (dummy_zone_change ch) ''zone'' = Inr z2 \<and>
     py_getitem (ip6_reverse_zone_change ch) ''zone'' = Inr z3 \<and>
     py_getitem (ip4_reverse_zone_change ch) ''zone'' = Inr z4 \<and>
     py_getitem (classless_base_zone_change ch) ''zone'' = Inr z5 \<and>
     py_getitem (classless_zone_delegation_change ch) ''zone'' = Inr z6 \<and>
     py_getitem (system_test_zone_change ch) ''zone'' = Inr z7 \<and>
     py_getitem (parent_zone_change ch) ''zone'' = Inr z8"
    "ok_zone (self s) = Some z1 \<and> dummy_zone (self s) = Some z2 \<and>
     ip6_reverse_zone (self s) = Some z3 \<and> ip4_reverse_zone (self s) = Some z4 \<and>
     classless_base_zone (self s) = Some z5 \<and>
     classless_zone_delegation_zone (self s) = Some z6 \<and>
     system_test_zone (self s) = Some z7 \<and> parent_zone (self s) = Some z8"
proof -
  from assms obtain s1 s2 ch s3 s4 where
    td: "tear_down env (start tc w) = (Inr (), s1)" and
    sg: "setup_groups env s1 = (Inr (), s2)" and
    cz: "create_zones env tc s2 = (Inr ch, s3)" and
    aw: "await_zones env ch s3 = (Inr (), s4)" and
    va: "validate_zones env s4 = (Inr (), s)"
    by (rule init_InrE)
  note d1 = emitsD[OF emits_tear_down td]
  note d2 = emitsD[OF emits_setup_groups sg]
  from d1(3) obtain x1 where x1: "trace s1 = x1" "list_all (\<lambda>e. \<not> zone_event e) x1"
    by (auto simp: start_def)
  from d2(3) obtain x2 where x2: "trace s2 = trace s1 @ x2" "list_all (\<lambda>e. \<not> zone_event e) x2"
    by blast
  have c2: "ok_vinyldns_client (self s2) = ok_vinyldns_client (new_context tc)"
    "dummy_vinyldns_client (self s2) = dummy_vinyldns_client (new_context tc)"
    using d1(1,2) d2(1,2) by (simp_all add: start_def)
  from create_zones_Inr[OF cz c2] obtain g1 g2 z1 z2 z3 z4 z5 z6 z7 z8 where
    t3: "trace s3 = trace s2 @ creation_events tc g1 g2 ch" and
    zs: "py_getitem (ok_zone_change ch) ''zone'' = Inr z1 \<and>
     py_getitem (dummy_zone_change ch) ''zone'' = Inr z2 \<and>
     py_getitem (ip6_reverse_zone_change ch) ''zone'' = Inr z3 \<and>
     py_getitem (ip4_reverse_zone_change ch) ''zone'' = Inr z4 \<and>
     py_getitem (classless_base_zone_change ch) ''zone'' = Inr z5 \<and>
     py_getitem (classless_zone_delegation_change ch) ''zone'' = Inr z6 \<and>
     py_getitem (system_test_zone_change ch) ''zone'' = Inr z7 \<and>
     py_getitem (parent_zone_change ch) ''zone'' = Inr z8" and
    f3: "self s3 = (self s2)\<lparr>ok_zone := Some z1, dummy_zone := Some z2, ip6_reverse_zone := Some z3,
        ip4_reverse_zone := Some z4, classless_base_zone := Some z5,
        classless_zone_delegation_zone := Some z6, system_test_zone := Some z7,
        parent_zone := Some z8\<rparr>"
    by blast
  have c3: "ok_vinyldns_client (self s3) = ok_vinyldns_client (new_context tc)"
    "dummy_vinyldns_client (self s3) = dummy_vinyldns_client (new_context tc)"
    using c2 f3 by simp_all
  from await_zones_Inr[OF aw c3] obtain ws where
    t4: "trace s4 = trace s3 @ ws" and ws: "map call_of ws = map Some (wait_calls tc ch)"
      "list_all returned ws" and f4: "self s4 = self s3"
    by blast
  have c4: "ok_vinyldns_client (self s4) = ok_vinyldns_client (new_context tc)"
    "dummy_vinyldns_client (self s4) = dummy_vinyldns_client (new_context tc)"
    using c3 f4 by simp_all
  from validate_zones_Inr[OF va c4] obtain ra rb where
    t5: "trace s = trace s4 @
        [Called (Call (dummy_vinyldns_client (new_context tc)) List_zones None) ra,
         Called (Call (ok_vinyldns_client (new_context tc)) List_zones None) rb]" and
    cnt: "listed_count ra = Some 2" "listed_count rb = Some 7" and f5: "self s = self s4"
    by blast
  show ?thesis
  proof (rule that[of "x1 @ x2" g1 g2 ch ws ra rb z1 z2 z3 z4 z5 z6 z7 z8])
    show "trace s = (x1 @ x2) @ creation_events tc g1 g2 ch @ ws @
       [Called (Call (dummy_vinyldns_client (new_context tc)) List_zones None) ra,
        Called (Call (ok_vinyldns_client (new_context tc)) List_zones None) rb]"
      using t5 t4 t3 x2 x1 by simp
    show "list_all (\<lambda>e. \<not> zone_event e) (x1 @ x2)" using x1 x2 by simp
    show "ok_zone (self s) = Some z1 \<and> dummy_zone (self s) = Some z2 \<and>
     ip6_reverse_zone (self s) = Some z3 \<and> ip4_reverse_zone (self s) = Some z4 \<and>
     classless_base_zone (self s) = Some z5 \<and>
     classless_zone_delegation_zone (self s) = Some z6 \<and>
     system_test_zone (self s) = Some z7 \<and> parent_zone (self s) = Some z8"
      using f5 f4 f3 by simp
  qed (fact ws cnt zs)+
qed

subsection \<open>Evaluation\<close>

lemmas prog_defs = return_def raise_def and_then_def lift_def read_def assign_def assert_that_def
  time_sleep_def invoke_def get_group_def list_all_my_groups_def create_group_def update_group_def
  create_zone_def wait_until_zone_exists_def list_zones_def clear_zones_def clear_groups_def

lemma getitem_baseline_id: "py_getitem baseline_ok_group ''id'' = Inr (JStr ''ok'')"
  by (simp add: baseline_ok_group_def)

lemma getitem_g_dummy_id: "py_getitem g_dummy ''id'' = Inr (JStr ''dummy-group-id'')"
  by (simp add: g_dummy_def)

lemma getitem_change_of_zone: "py_getitem (change_of nm) ''zone'' = Inr (zone_named nm)"
  by (simp add: change_of_def)

subsection \<open>Concrete runs\<close>

lemma happy_run:
  "(case init scripted tc0 happy_script of
      (r, s) \<Rightarrow> r = Inr () \<and> parent_zone (self s) = Some (zone_named ''parent.com.''))"
  by (simp add: init_def guarded_body_def fixture_body_def tear_down_def setup_groups_def
      create_zones_def create_zone_as_def await_zones_def validate_zones_def
      confirm_member_in_group_def confirm_loop.simps prog_defs scripted_def happy_script_def
      happy_prefix_def group_replies_def cleanup_replies_def ok_zones_listed_def start_def
      new_context_def
      getitem_baseline_id getitem_g_dummy_id getitem_change_of_zone)

lemma happy_init: "init scripted tc0 happy_script = (Inr (), snd (init scripted tc0 happy_script))"
  using happy_run by (cases "init scripted tc0 happy_script") simp

subsection \<open>Selecting the events of one kind\<close>

lemma filter_no_zone_event:
  assumes "list_all (\<lambda>e. \<not> zone_event e) pre"
  shows "filter is_create_zone pre = []" "filter is_wait pre = []" "filter is_list_zones pre = []"
  using assms by (induction pre) (auto simp: zone_event_def)

lemma filter_creation_events [simp]:
  "filter is_create_zone (creation_events tc g1 g2 ch) = creation_events tc g1 g2 ch"
  "filter is_wait (creation_events tc g1 g2 ch) = []"
  "filter is_list_zones (creation_events tc g1 g2 ch) = []"
  by (simp_all add: creation_events_def)

lemma is_wait_call_of: "is_wait e \<longleftrightarrow> (\<exists>c z st. call_of e = Some (Call c (Wait_until_zone_exists z) st))"
  by (cases e rule: is_wait.cases) auto

lemma is_create_zone_call_of:
  "is_create_zone e \<longleftrightarrow> (\<exists>c z st. call_of e = Some (Call c (Create_zone z) st))"
  by (cases e rule: is_create_zone.cases) auto

lemma is_list_zones_call_of:
  "is_list_zones e \<longleftrightarrow> (\<exists>c st. call_of e = Some (Call c List_zones st))"
  by (cases e rule: is_list_zones.cases) auto

lemma waits_only:
  assumes "map call_of ws = map Some (wait_calls tc ch)"
  shows "filter is_wait ws = ws" "filter is_create_zone ws = []" "filter is_list_zones ws = []"
proof -
  have "\<forall>e \<in> set ws. \<exists>c \<in> set (wait_calls tc ch). call_of e = Some c"
  proof
    fix e assume "e \<in> set ws"
    then have "call_of e \<in> set (map call_of ws)" by simp
    then show "\<exists>c \<in> set (wait_calls tc ch). call_of e = Some c" using assms by auto
  qed
  then have *: "\<forall>e \<in> set ws. is_wait e \<and> \<not> is_create_zone e \<and> \<not> is_list_zones e"
    by (auto simp: wait_calls_def is_wait_call_of is_create_zone_call_of is_list_zones_call_of)
  show "filter is_wait ws = ws" using * by (simp add: filter_id_conv)
  show "filter is_create_zone ws = []" using * by (simp add: filter_empty_conv)
  show "filter is_list_zones ws = []" using * by (simp add: filter_empty_conv)
qed

lemma zone_event_filters:
  "list_all (\<lambda>e. \<not> zone_event e) pre \<Longrightarrow> filter zone_event pre = []"
  "filter zone_event (creation_events tc g1 g2 ch) = creation_events tc g1 g2 ch"
  "map call_of ws = map Some (wait_calls tc ch) \<Longrightarrow> filter zone_event ws = ws"
proof -
  show "list_all (\<lambda>e. \<not> zone_event e) pre \<Longrightarrow> filter zone_event pre = []"
    by (induction pre) auto
  show "filter zone_event (creation_events tc g1 g2 ch) = creation_events tc g1 g2 ch"
    by (simp add: creation_events_def zone_event_def)
  assume "map call_of ws = map Some (wait_calls tc ch)"
  from waits_only(1)[OF this] have "\<forall>e \<in> set ws. is_wait e" by (simp add: filter_id_conv)
  then show "filter zone_event ws = ws" by (simp add: filter_id_conv zone_event_def)
qed

subsection \<open>Rejected creations and listings of the wrong size\<close>

lemma fails_on_silent:
  "fails_on tc B (return x)" "fails_on tc B (raise e)" "fails_on tc B (read f)"
  "fails_on tc B (lift v)" "fails_on tc B (assert_that b)"
  by (rule fails_on_emits[where P = "\<lambda>e. False"]; simp)+

lemma fails_on_assign:
  assumes "\<And>x. ok_vinyldns_client (f x) = ok_vinyldns_client x"
    and "\<And>x. dummy_vinyldns_client (f x) = dummy_vinyldns_client x"
  shows "fails_on tc B (assign f)"
  by (rule fails_on_emits[where P = "\<lambda>e. False"]) (simp_all add: emits_assign assms)

lemma fails_on_create_zones:
  "fails_on tc (\<lambda>e. is_create_zone e \<and> rejected e) (create_zones env tc)"
  unfolding create_zones_def create_zone_as_def create_zone_def
  by (intro fails_on_and_then fails_on_invoke fails_on_silent fails_on_assign) simp_all

lemma fixture_body_rejected_creation:
  "fails_on tc (\<lambda>e. is_create_zone e \<and> rejected e) (fixture_body env tc)"
  unfolding fixture_body_def
proof (intro fails_on_and_then)
  show "fails_on tc (\<lambda>e. is_create_zone e \<and> rejected e) (setup_groups env)"
    by (rule fails_on_emits[OF emits_setup_groups]) (simp add: zone_event_def)
  show "fails_on tc (\<lambda>e. is_create_zone e \<and> rejected e) (create_zones env tc)"
    by (rule fails_on_create_zones)
  show "fails_on tc (\<lambda>e. is_create_zone e \<and> rejected e) (await_zones env ch)" for ch
    by (rule fails_on_emits[OF emits_await_zones]) (auto simp: is_wait_call_of is_create_zone_call_of)
  show "fails_on tc (\<lambda>e. is_create_zone e \<and> rejected e) (validate_zones env)"
    by (rule fails_on_emits[OF emits_validate_zones])
       (auto simp: is_list_zones_call_of is_create_zone_call_of)
qed

lemma fails_on_check:
  fixes env :: "'w remote"
  assumes K1: "\<And>n s. n \<noteq> k \<Longrightarrow> K n s = (Inl AssertionError, s)"
    and K2: "fails_on tc count_mismatch (K k)"
    and cf: "\<And>s :: 'w machine. clients_ok tc s \<Longrightarrow> (if access_key (cf (self s)) = ''dummyAccessKey'' then 2 else 7) = k"
  shows "fails_on tc count_mismatch
     (and_then (read cf) (\<lambda>client.
      and_then (list_zones env client) (\<lambda>listing.
      and_then (lift (py_getitem listing ''zones'')) (\<lambda>zones.
      and_then (lift (py_len zones)) K))))"
proof (rule fails_onI)
  fix s :: "'w machine" and r s'
  let ?c = "cf (self s)"
  assume c: "clients_ok tc s"
    and run: "and_then (read cf) (\<lambda>client.
      and_then (list_zones env client) (\<lambda>listing.
      and_then (lift (py_getitem listing ''zones'')) (\<lambda>zones.
      and_then (lift (py_len zones)) K))) s = (r, s')"
  obtain rep w' where rp: "respond env (Call ?c List_zones None) (world s) = (rep, w')"
    by (cases "respond env (Call ?c List_zones None) (world s)")
  define s1 where "s1 = s\<lparr>world := w', trace := trace s @ [Called (Call ?c List_zones None) rep]\<rparr>"
  have c1: "clients_ok tc s1" using c by (simp add: s1_def clients_ok_def)
  have t1: "trace s1 = trace s @ [Called (Call ?c List_zones None) rep]" by (simp add: s1_def)
  have mm: "count_mismatch (Called (Call ?c List_zones None) rep) \<longleftrightarrow>
     (\<exists>n. listed_count rep = Some n \<and> n \<noteq> k)"
    using cf[OF c] by (auto split: option.splits)
  show "clients_ok tc s' \<and> (\<exists>ext. trace s' = trace s @ ext \<and> (list_ex count_mismatch ext \<longrightarrow> r = Inl AssertionError))"
  proof (cases "listed_count rep")
    case None
    then have "s' = s1"
      using run rp by (cases rep) (auto simp: and_then_def read_def list_zones_def invoke_def
          lift_def s1_def split: sum.splits)
    moreover have "\<not> count_mismatch (Called (Call ?c List_zones None) rep)" using mm None by simp
    ultimately show ?thesis using c1 t1 by auto
  next
    case (Some n)
    then have kn: "K n s1 = (r, s')"
      using run rp by (cases rep) (auto simp: and_then_def read_def list_zones_def invoke_def
          lift_def s1_def split: sum.splits)
    show ?thesis
    proof (cases "n = k")
      case False
      with K1 kn have "r = Inl AssertionError" "s' = s1" by simp_all
      with c1 t1 show ?thesis by auto
    next
      case True
      with kn have "K k s1 = (r, s')" by simp
      from fails_onD[OF K2 c1 this] obtain e2 where
        2: "clients_ok tc s'" "trace s' = trace s1 @ e2"
           "list_ex count_mismatch e2 \<longrightarrow> r = Inl AssertionError" by blast
      have "\<not> count_mismatch (Called (Call ?c List_zones None) rep)" using mm Some True by simp
      then have "list_ex count_mismatch ([Called (Call ?c List_zones None) rep] @ e2) \<longrightarrow> r = Inl AssertionError"
        using 2(3) by simp
      moreover have "trace s' = trace s @ ([Called (Call ?c List_zones None) rep] @ e2)"
        using t1 2(2) by simp
      ultimately show ?thesis using 2(1) by blast
    qed
  qed
qed

lemma fails_on_validate_zones: "fails_on tc count_mismatch (validate_zones env)"
  unfolding validate_zones_def
proof (rule fails_on_check[where k = 2])
  show "and_then (assert_that (n = 2)) K s = (Inl AssertionError, s)" if "n \<noteq> 2"
    for n :: nat and K :: "unit \<Rightarrow> ('a, unit) prog" and s
    using that by (simp add: and_then_def assert_that_def raise_def)
  show "(if access_key (dummy_vinyldns_client (self s)) = ''dummyAccessKey'' then 2 else 7) = (2::nat)"
    if "clients_ok tc s" for s :: "'a machine"
    using that by (simp add: clients_ok_def new_context_def VinylDNSClient_def)
  show "fails_on tc count_mismatch (and_then (assert_that (2 = (2::nat))) (\<lambda>_.
     and_then (read ok_vinyldns_client) (\<lambda>client.
     and_then (list_zones env client) (\<lambda>listing.
     and_then (lift (py_getitem listing ''zones'')) (\<lambda>zones.
     and_then (lift (py_len zones)) (\<lambda>n.
     assert_that (n = 7)))))))"
  proof (rule fails_on_and_then, rule fails_on_silent, rule fails_on_check[where k = 7])
    show "assert_that (n = 7) s = (Inl AssertionError, s)" if "n \<noteq> 7" for n :: nat and s :: "'a machine"
      using that by (simp add: assert_that_def raise_def)
    show "fails_on tc count_mismatch (assert_that (7 = (7::nat)))" by (rule fails_on_silent)
    show "(if access_key (ok_vinyldns_client (self s)) = ''dummyAccessKey'' then 2 else 7) = (7::nat)"
      if "clients_ok tc s" for s :: "'a machine"
      using that by (simp add: clients_ok_def new_context_def VinylDNSClient_def)
  qed
qed

lemma fixture_body_count_mismatch: "fails_on tc count_mismatch (fixture_body env tc)"
  unfolding fixture_body_def
proof (intro fails_on_and_then)
  have nz: "\<not> count_mismatch e" if "\<not> is_list_zones e" for e
    using that by (cases e rule: count_mismatch.cases) auto
  show "fails_on tc count_mismatch (setup_groups env)"
    by (rule fails_on_emits[OF emits_setup_groups]) (simp add: zone_event_def nz)
  show "fails_on tc count_mismatch (create_zones env tc)"
    by (rule fails_on_emits[OF emits_create_zones], rule nz)
       (auto simp: is_list_zones_call_of is_create_zone_call_of)
  show "fails_on tc count_mismatch (await_zones env ch)" for ch
    by (rule fails_on_emits[OF emits_await_zones], rule nz)
       (auto simp: is_wait_call_of is_list_zones_call_of)
  show "fails_on tc count_mismatch (validate_zones env)"
    by (rule fails_on_validate_zones)
qed

subsection \<open>Runs that fail\<close>

lemmas run_defs = init_def guarded_body_def fixture_body_def tear_down_def setup_groups_def
  create_zones_def create_zone_as_def await_zones_def validate_zones_def
  confirm_member_in_group_def confirm_loop.simps prog_defs scripted_def
  happy_prefix_def group_replies_def cleanup_replies_def ok_zones_listed_def start_def
  new_context_def getitem_baseline_id getitem_g_dummy_id getitem_change_of_zone

lemma rejected_run:
  "list_ex (\<lambda>e. is_create_zone e \<and> rejected e) (trace (snd (init scripted tc0 rejected_script)))"
  by (simp add: run_defs rejected_script_def)

lemma leaked_run: "list_ex count_mismatch (trace (snd (init scripted tc0 leaked_script)))"
  by (simp add: run_defs leaked_script_def VinylDNSClient_def zone_named_def)

subsection \<open>The request for \<^verbatim>\<open>parent.com.\<close>\<close>

lemma parent_zone_request_acl:
  "py_getitem (parent_zone_request tc i) ''acl'' =
     Inr (dict [(''rules'', JList [dict [(''accessLevel'', JStr ''Delete''),
                                        (''description'', JStr ''some_test_rule''),
                                        (''userId'', JStr ''dummy'')]])])"
  by (simp add: parent_zone_request_def)

lemma parent_zone_request_name:
  "py_getitem (parent_zone_request tc i) ''name'' = Inr (JStr ''parent.com.'')"
  by (simp add: parent_zone_request_def)

lemma last_creation_events:
  "last (creation_events tc g1 g2 ch) =
     Called (Call (ok_vinyldns_client (new_context tc)) (Create_zone (parent_zone_request tc g1)) (Some 202))
       (Response 202 (parent_zone_change ch))"
  by (simp add: creation_events_def)

subsection \<open>The first call of \<^verbatim>\<open>tear_down\<close>\<close>

lemma first_event:
  assumes "\<And>x. emits (\<lambda>e. True) (f x)" and "and_then (invoke env c op st) f s = (r, s')"
  shows "\<exists>rep rest. trace s' = trace s @ Called (Call c op st) rep # rest"
proof -
  obtain r1 s1 where i: "invoke env c op st s = (r1, s1)" by (cases "invoke env c op st s")
  obtain rep w' where rp: "respond env (Call c op st) (world s) = (rep, w')"
    by (cases "respond env (Call c op st) (world s)")
  have t1: "trace s1 = trace s @ [Called (Call c op st) rep]"
    using i rp by (auto simp: invoke_def Let_def split: reply.splits if_splits)
  show ?thesis
  proof (cases r1)
    case (Inl e)
    with i assms(2) have "s' = s1" by (simp add: and_then_def)
    with t1 show ?thesis by simp
  next
    case (Inr x)
    with i assms(2) have "f x s1 = (r, s')" by (simp add: and_then_def)
    from emitsD(3)[OF assms(1) this] obtain ext where "trace s' = trace s1 @ ext" by blast
    with t1 show ?thesis by simp
  qed
qed

lemma read_and_then: "and_then (read f) g s = g (f (self s)) s"
  by (simp add: and_then_def read_def)

lemma tear_down_first_event:
  assumes "tear_down env s = (r, s')"
  shows "\<exists>rep rest. trace s' = trace s @
     Called (Call (dummy_vinyldns_client (self s)) Clear_zones None) rep # rest"
proof -
  define rest where "rest = (\<lambda>_ :: json.
     and_then (read ok_vinyldns_client) (\<lambda>client.
     and_then (clear_zones env client) (\<lambda>_.
     and_then (read dummy_vinyldns_client) (\<lambda>client.
     and_then (clear_groups env client []) (\<lambda>_.
     and_then (read ok_vinyldns_client) (\<lambda>client.
     and_then (clear_groups env client [''ok'']) (\<lambda>_.
     and_then (read ok_vinyldns_client) (\<lambda>client.
     and_then (update_group env client ''ok'' baseline_ok_group 200) (\<lambda>_.
     return ())))))))))"
  have e: "emits (\<lambda>e. True) (rest x)" for x
    unfolding rest_def clear_zones_def clear_groups_def update_group_def
    by (intro emits_and_then emits_invoke emits_read emits_return) simp_all
  have "tear_down env s =
     and_then (invoke env (dummy_vinyldns_client (self s)) Clear_zones None) rest s"
    unfolding tear_down_def rest_def clear_zones_def by (rule read_and_then)
  with assms have "and_then (invoke env (dummy_vinyldns_client (self s)) Clear_zones None) rest s = (r, s')"
    by simp
  then show ?thesis by (rule first_event[OF e])
qed

lemma failing_run:
  "fst (tear_down scripted (start tc0 failing_script)) = Inr () \<and>
   fst (fixture_body scripted tc0 (snd (tear_down scripted (start tc0 failing_script)))) =
     Inl AssertionError \<and>
   fst (tear_down scripted
     (snd (fixture_body scripted tc0 (snd (tear_down scripted (start tc0 failing_script)))))) =
     Inl (Failure 7)"
  by (simp add: run_defs failing_script_def)

subsection \<open>The membership poll\<close>

lemma unconverged_run:
  "fst (confirm_member_in_group unconverged (ok_vinyldns_client (new_context tc0))
          baseline_ok_group (start tc0 ())) = Inl AssertionError \<and>
   trace (snd (confirm_member_in_group unconverged (ok_vinyldns_client (new_context tc0))
          baseline_ok_group (start tc0 ()))) =
     [Called (Call (ok_vinyldns_client (new_context tc0)) List_all_my_groups (Some 200))
        (Response 200 (JList [])),
      Called (Call (ok_vinyldns_client (new_context tc0)) List_all_my_groups (Some 200))
        (Response 200 (JList [])),
      Slept 50,
      Called (Call (ok_vinyldns_client (new_context tc0)) List_all_my_groups (Some 200))
        (Response 200 (JList [])),
      Slept 50,
      Called (Call (ok_vinyldns_client (new_context tc0)) List_all_my_groups (Some 200))
        (Response 200 (JList [])),
      Slept 50]"
  by (simp add: confirm_member_in_group_def confirm_loop.simps prog_defs unconverged_def start_def)


lemma list_all_my_groups_trace:
  assumes "list_all_my_groups env c st s = (r, s')"
  shows "\<exists>rep. trace s' = trace s @ [Called (Call c List_all_my_groups (Some st)) rep]"
proof -
  obtain rep w' where rp: "respond env (Call c List_all_my_groups (Some st)) (world s) = (rep, w')"
    by (cases "respond env (Call c List_all_my_groups (Some st)) (world s)")
  have "trace s' = trace s @ [Called (Call c List_all_my_groups (Some st)) rep]"
    using assms rp
    by (cases rep)
       (auto simp: list_all_my_groups_def and_then_def invoke_def Let_def return_def raise_def
             split: json.splits if_splits)
  then show ?thesis by blast
qed

lemma confirm_loop_listings:
  "confirm_loop env c g n b s = (r, s') \<Longrightarrow> - 1 \<le> n \<Longrightarrow>
     \<exists>ext. trace s' = trace s @ ext \<and> int (length (filter is_list_groups ext)) \<le> n + 1"
proof (induction env c g n b s arbitrary: r s' rule: confirm_loop.induct)
  case (1 env client grp retries success s)
  show ?case
  proof (cases "retries \<ge> 0 \<and> \<not> success")
    case False
    with "1.prems" have "trace s' = trace s @ [] \<and> int (length (filter is_list_groups [])) \<le> retries + 1"
      by (simp add: confirm_loop_stop)
    then show ?thesis by blast
  next
    case True
    obtain r1 s1 where l: "list_all_my_groups env client 200 s = (r1, s1)"
      by (cases "list_all_my_groups env client 200 s")
    from list_all_my_groups_trace[OF l] obtain rep where
      t1: "trace s1 = trace s @ [Called (Call client List_all_my_groups (Some 200)) rep]" by blast
    show ?thesis
    proof (cases r1)
      case (Inl e)
      with True l "1.prems"(1) have "s' = s1" by (simp add: confirm_loop_step)
      with t1 True have "trace s' = trace s @ [Called (Call client List_all_my_groups (Some 200)) rep] \<and>
         int (length (filter is_list_groups [Called (Call client List_all_my_groups (Some 200)) rep]))
           \<le> retries + 1"
        by simp
      then show ?thesis by blast
    next
      case (Inr gs)
      obtain r2 s2 where sl: "time_sleep env 50 s1 = (r2, s2)" by (cases "time_sleep env 50 s1")
      from sl have t2: "trace s2 = trace s1 @ [Slept 50]" by (auto simp: time_sleep_def)
      from True l Inr sl "1.prems"(1)
      have rec: "confirm_loop env client grp (retries - 1) (grp \<in> set gs) s2 = (r, s')"
        by (simp add: confirm_loop_step)
      from True have "- 1 \<le> retries - 1" by simp
      from "1.IH"[OF True l[symmetric] Inr sl[symmetric] rec this] obtain ext where
        ih: "trace s' = trace s2 @ ext" "int (length (filter is_list_groups ext)) \<le> retries - 1 + 1"
        by blast
      have "trace s' = trace s @
          ([Called (Call client List_all_my_groups (Some 200)) rep, Slept 50] @ ext) \<and>
        int (length (filter is_list_groups
          ([Called (Call client List_all_my_groups (Some 200)) rep, Slept 50] @ ext))) \<le> retries + 1"
        using ih t1 t2 by simp
      then show ?thesis by blast
    qed
  qed
qed

lemma confirm_member_at_most_four_listings:
  assumes "confirm_member_in_group env c g s = (r, s')"
  shows "\<exists>ext. trace s' = trace s @ ext \<and> length (filter is_list_groups ext) \<le> 4"
proof -
  obtain r1 s1 where l: "list_all_my_groups env c 200 s = (r1, s1)"
    by (cases "list_all_my_groups env c 200 s")
  from list_all_my_groups_trace[OF l] obtain rep where
    t1: "trace s1 = trace s @ [Called (Call c List_all_my_groups (Some 200)) rep]" by blast
  show ?thesis
  proof (cases r1)
    case (Inl e)
    with l assms have "s' = s1" by (simp add: confirm_member_in_group_def and_then_def)
    with t1 have "trace s' = trace s @ [Called (Call c List_all_my_groups (Some 200)) rep] \<and>
       length (filter is_list_groups [Called (Call c List_all_my_groups (Some 200)) rep]) \<le> 4"
      by simp
    then show ?thesis by blast
  next
    case (Inr gs)
    obtain r2 s2 where lp: "confirm_loop env c g 2 (g \<in> set gs) s1 = (r2, s2)"
      by (cases "confirm_loop env c g 2 (g \<in> set gs) s1")
    from confirm_loop_listings[OF lp] obtain ext where
      e: "trace s2 = trace s1 @ ext" "int (length (filter is_list_groups ext)) \<le> 3" by auto
    have "s' = s2"
      using assms l Inr lp
      by (cases r2) (auto simp: confirm_member_in_group_def and_then_def assert_that_def
          return_def raise_def split: if_splits)
    with e t1 have "trace s' = trace s @ (Called (Call c List_all_my_groups (Some 200)) rep # ext) \<and>
       length (filter is_list_groups (Called (Call c List_all_my_groups (Some 200)) rep # ext)) \<le> 4"
      by simp
    then show ?thesis by blast
  qed
qed

lemma shows_group_Response:
  "shows_group g (Called (Call c List_all_my_groups (Some n)) (Response code b)) \<longleftrightarrow>
     code = n \<and> (\<exists>gs. b = JList gs \<and> g \<in> set gs)"
  by (cases b) auto

lemma list_all_my_groups_event:
  assumes "list_all_my_groups env c st s = (r1, s1)"
  shows "\<exists>ev. trace s1 = trace s @ [ev] \<and> is_list_groups ev \<and> self s1 = self s \<and>
     (case r1 of
        Inr gs \<Rightarrow> ev = Called (Call c List_all_my_groups (Some st)) (Response st (JList gs))
      | Inl e \<Rightarrow> \<not> shows_group g ev)"
proof -
  obtain rep w' where rp: "respond env (Call c List_all_my_groups (Some st)) (world s) = (rep, w')"
    by (cases "respond env (Call c List_all_my_groups (Some st)) (world s)")
  let ?ev = "Called (Call c List_all_my_groups (Some st)) rep"
  have "trace s1 = trace s @ [?ev] \<and> self s1 = self s \<and>
     (case r1 of
        Inr gs \<Rightarrow> ?ev = Called (Call c List_all_my_groups (Some st)) (Response st (JList gs))
      | Inl e \<Rightarrow> \<not> shows_group g ?ev)"
    using assms rp
    by (cases rep)
       (auto simp: list_all_my_groups_def and_then_def invoke_def Let_def return_def raise_def
             shows_group_Response
             split: json.splits if_splits sum.splits)
  then show ?thesis by (intro exI[of _ ?ev]) simp
qed

lemma confirm_loop_total:
  "confirm_loop env c g n b s = (r, s') \<Longrightarrow>
     \<exists>ext. trace s' = trace s @ ext \<and> self s' = self s \<and> list_all is_poll ext \<and>
       (b \<longrightarrow> ext = [] \<and> r = Inr True) \<and>
       (r = Inr True \<longrightarrow> b \<or> list_ex (shows_group g) ext) \<and>
       (\<forall>pre ev post. ext = pre @ ev # post \<and> shows_group g ev \<longrightarrow>
          r = Inr True \<and> post = [Slept 50])"
proof (induction env c g n b s arbitrary: r s' rule: confirm_loop.induct)
  case (1 env client grp retries success s)
  show ?case
  proof (cases "retries \<ge> 0 \<and> \<not> success")
    case False
    with "1.prems" have "r = Inr success" "s' = s" by (simp_all add: confirm_loop_stop)
    then have "trace s' = trace s @ [] \<and> self s' = self s \<and> list_all is_poll [] \<and>
       (success \<longrightarrow> ([] :: event list) = [] \<and> r = Inr True) \<and>
       (r = Inr True \<longrightarrow> success \<or> list_ex (shows_group grp) []) \<and>
       (\<forall>pre ev post. ([] :: event list) = pre @ ev # post \<and> shows_group grp ev \<longrightarrow>
          r = Inr True \<and> post = [Slept 50])"
      by auto
    then show ?thesis by blast
  next
    case True
    obtain r1 s1 where l: "list_all_my_groups env client 200 s = (r1, s1)"
      by (cases "list_all_my_groups env client 200 s")
    from list_all_my_groups_event[OF l, of grp] obtain e1 where
      e1: "trace s1 = trace s @ [e1]" "is_list_groups e1" "self s1 = self s"
          "case r1 of
             Inr gs \<Rightarrow> e1 = Called (Call client List_all_my_groups (Some 200)) (Response 200 (JList gs))
           | Inl e \<Rightarrow> \<not> shows_group grp e1"
      by blast
    have p1: "is_poll e1" using e1(2) by (cases e1 rule: is_list_groups.cases) auto
    show ?thesis
    proof (cases r1)
      case (Inl e)
      with True l "1.prems"(1) have rs: "r = Inl e" "s' = s1" by (simp_all add: confirm_loop_step)
      from Inl e1(4) have ns: "\<not> shows_group grp e1" by simp
      have "trace s' = trace s @ [e1] \<and> self s' = self s \<and> list_all is_poll [e1] \<and>
       (success \<longrightarrow> [e1] = [] \<and> r = Inr True) \<and>
       (r = Inr True \<longrightarrow> success \<or> list_ex (shows_group grp) [e1]) \<and>
       (\<forall>pre ev post. [e1] = pre @ ev # post \<and> shows_group grp ev \<longrightarrow>
          r = Inr True \<and> post = [Slept 50])"
        using rs e1 p1 ns True by (auto simp: Cons_eq_append_conv)
      then show ?thesis by blast
    next
      case (Inr gs)
      obtain r2 s2 where sl: "time_sleep env 50 s1 = (r2, s2)" by (cases "time_sleep env 50 s1")
      from sl have t2: "trace s2 = trace s1 @ [Slept 50]" "self s2 = self s1"
        by (auto simp: time_sleep_def)
      from True l Inr sl "1.prems"(1)
      have rec: "confirm_loop env client grp (retries - 1) (grp \<in> set gs) s2 = (r, s')"
        by (simp add: confirm_loop_step)
      from "1.IH"[OF True l[symmetric] Inr sl[symmetric] rec] obtain ext where
        ih: "trace s' = trace s2 @ ext" "self s' = self s2" "list_all is_poll ext"
            "grp \<in> set gs \<longrightarrow> ext = [] \<and> r = Inr True"
            "r = Inr True \<longrightarrow> grp \<in> set gs \<or> list_ex (shows_group grp) ext"
            "\<forall>pre ev post. ext = pre @ ev # post \<and> shows_group grp ev \<longrightarrow>
               r = Inr True \<and> post = [Slept 50]"
        by blast
      from Inr e1(4) have ev1: "e1 = Called (Call client List_all_my_groups (Some 200))
          (Response 200 (JList gs))" by simp
      then have sh: "shows_group grp e1 \<longleftrightarrow> grp \<in> set gs" by simp
      have split: "r = Inr True \<and> post = [Slept 50]"
        if "e1 # Slept 50 # ext = pre @ ev # post" "shows_group grp ev" for pre ev post
      proof (cases pre)
        case Nil
        with that have "ev = e1" "post = Slept 50 # ext" by simp_all
        with that(2) sh ih(4) show ?thesis by simp
      next
        case (Cons a pre1)
        with that(1) have a: "a = e1" "Slept 50 # ext = pre1 @ ev # post" by simp_all
        show ?thesis
        proof (cases pre1)
          case Nil
          with a(2) have "ev = Slept 50" by simp
          with that(2) show ?thesis by simp
        next
          case (Cons a2 pre2)
          with a(2) have "ext = pre2 @ ev # post" by simp
          with ih(6) that(2) show ?thesis by blast
        qed
      qed
      have "trace s' = trace s @ (e1 # Slept 50 # ext) \<and> self s' = self s \<and>
         list_all is_poll (e1 # Slept 50 # ext) \<and>
         (success \<longrightarrow> e1 # Slept 50 # ext = [] \<and> r = Inr True) \<and>
         (r = Inr True \<longrightarrow> success \<or> list_ex (shows_group grp) (e1 # Slept 50 # ext)) \<and>
         (\<forall>pre ev post. e1 # Slept 50 # ext = pre @ ev # post \<and> shows_group grp ev \<longrightarrow>
            r = Inr True \<and> post = [Slept 50])"
        using ih(1,2,3,5) e1(1,3) t2 p1 True sh split by auto
      then show ?thesis by blast
    qed
  qed
qed

lemma confirm_member_total:
  assumes "confirm_member_in_group env c g s = (r, s')"
  shows "\<exists>ev rest. trace s' = trace s @ ev # rest \<and> is_list_groups ev \<and> self s' = self s \<and>
     list_all is_poll (ev # rest) \<and>
     (shows_group g ev \<longrightarrow> r = Inr () \<and> rest = []) \<and>
     (\<forall>pre ev' post. rest = pre @ ev' # post \<and> shows_group g ev' \<longrightarrow>
        r = Inr () \<and> post = [Slept 50]) \<and>
     (r = Inr () \<longrightarrow> list_ex (shows_group g) (ev # rest))"
proof -
  obtain r1 s1 where l: "list_all_my_groups env c 200 s = (r1, s1)"
    by (cases "list_all_my_groups env c 200 s")
  from list_all_my_groups_event[OF l, of g] obtain e1 where
    e1: "trace s1 = trace s @ [e1]" "is_list_groups e1" "self s1 = self s"
        "case r1 of
           Inr gs \<Rightarrow> e1 = Called (Call c List_all_my_groups (Some 200)) (Response 200 (JList gs))
         | Inl e \<Rightarrow> \<not> shows_group g e1"
    by blast
  have p1: "is_poll e1" using e1(2) by (cases e1 rule: is_list_groups.cases) auto
  show ?thesis
  proof (cases r1)
    case (Inl e)
    with l assms have rs: "r = Inl e" "s' = s1"
      by (simp_all add: confirm_member_in_group_def and_then_def)
    from Inl e1(4) have "\<not> shows_group g e1" by simp
    with rs e1 p1 have "trace s' = trace s @ e1 # [] \<and> is_list_groups e1 \<and> self s' = self s \<and>
       list_all is_poll (e1 # []) \<and>
       (shows_group g e1 \<longrightarrow> r = Inr () \<and> ([] :: event list) = []) \<and>
       (\<forall>pre ev' post. ([] :: event list) = pre @ ev' # post \<and> shows_group g ev' \<longrightarrow>
          r = Inr () \<and> post = [Slept 50]) \<and>
       (r = Inr () \<longrightarrow> list_ex (shows_group g) (e1 # []))"
      by simp
    then show ?thesis by blast
  next
    case (Inr gs)
    obtain r2 s2 where lp: "confirm_loop env c g 2 (g \<in> set gs) s1 = (r2, s2)"
      by (cases "confirm_loop env c g 2 (g \<in> set gs) s1")
    from confirm_loop_total[OF lp] obtain ext where
      x: "trace s2 = trace s1 @ ext" "self s2 = self s1" "list_all is_poll ext"
         "g \<in> set gs \<longrightarrow> ext = [] \<and> r2 = Inr True"
         "r2 = Inr True \<longrightarrow> g \<in> set gs \<or> list_ex (shows_group g) ext"
         "\<forall>pre ev post. ext = pre @ ev # post \<and> shows_group g ev \<longrightarrow>
            r2 = Inr True \<and> post = [Slept 50]"
      by blast
    have fin: "s' = s2" "r = Inr () \<longleftrightarrow> r2 = Inr True"
      using assms l Inr lp
      by (cases r2; auto simp: confirm_member_in_group_def and_then_def assert_that_def
          return_def raise_def split: if_splits)+
    from Inr e1(4) have "e1 = Called (Call c List_all_my_groups (Some 200)) (Response 200 (JList gs))"
      by simp
    then have sh: "shows_group g e1 \<longleftrightarrow> g \<in> set gs" by simp
    have "trace s' = trace s @ e1 # ext \<and> is_list_groups e1 \<and> self s' = self s \<and>
       list_all is_poll (e1 # ext) \<and>
       (shows_group g e1 \<longrightarrow> r = Inr () \<and> ext = []) \<and>
       (\<forall>pre ev' post. ext = pre @ ev' # post \<and> shows_group g ev' \<longrightarrow>
          r = Inr () \<and> post = [Slept 50]) \<and>
       (r = Inr () \<longrightarrow> list_ex (shows_group g) (e1 # ext))"
      using x e1(1,2,3) p1 fin sh by auto
    then show ?thesis by blast
  qed
qed


lemma emits_tear_down_cleanup: "emits is_cleanup (tear_down env)"
  unfolding tear_down_def clear_zones_def clear_groups_def update_group_def
  by (intro emits_and_then emits_invoke emits_read emits_return) simp_all

lemma confirm_member_InrE:
  assumes "confirm_member_in_group env c g s = (Inr u, s')"
  obtains ext where "trace s' = trace s @ ext" "list_all is_poll ext" "self s' = self s"
  using confirm_member_total[OF assms] by blast

lemma setup_groups_Inr:
  assumes "setup_groups env s = (Inr u, s')"
  shows "\<exists>g_ok g_dummy p1 p2.
     trace s' = trace s @
       Called (Call (ok_vinyldns_client (self s)) (Get_group ''ok'') (Some 200)) (Response 200 g_ok) #
       p1 @
       Called (Call (dummy_vinyldns_client (self s)) (Create_group dummy_group_request) (Some 200))
         (Response 200 g_dummy) # p2 \<and>
     list_all is_poll p1 \<and> list_all is_poll p2 \<and>
     ok_group (self s') = g_ok \<and> dummy_group (self s') = g_dummy"
  using assms unfolding setup_groups_def get_group_def create_group_def
  apply (elim and_then_InrE invoke_InrE confirm_member_InrE)
  apply simp
  apply blast
  done

lemma filter_polls:
  assumes "list_all is_poll p"
  shows "filter is_get_group p = []" "filter is_create_group p = []"
    "list_all (\<lambda>e. \<not> zone_event e) p"
proof -
  have "\<not> is_get_group e \<and> \<not> is_create_group e \<and> \<not> zone_event e" if "is_poll e" for e
    using that by (cases e rule: is_poll.cases) (auto simp: zone_event_def)
  with assms show "filter is_get_group p = []" "filter is_create_group p = []"
    "list_all (\<lambda>e. \<not> zone_event e) p"
    by (auto simp: list_all_iff filter_empty_conv)
qed

lemma filter_cleanups:
  assumes "list_all is_cleanup p"
  shows "filter is_get_group p = []" "filter is_create_group p = []"
proof -
  have "\<not> is_get_group e \<and> \<not> is_create_group e" if "is_cleanup e" for e
    using that by (cases e rule: is_cleanup.cases) auto
  with assms show "filter is_get_group p = []" "filter is_create_group p = []"
    by (auto simp: list_all_iff filter_empty_conv)
qed

lemma filter_groups_zone_events:
  "filter is_get_group (creation_events tc g1 g2 ch) = []"
  "filter is_create_group (creation_events tc g1 g2 ch) = []"
  "map call_of ws = map Some (wait_calls tc ch) \<Longrightarrow> filter is_get_group ws = []"
  "map call_of ws = map Some (wait_calls tc ch) \<Longrightarrow> filter is_create_group ws = []"
proof -
  show "filter is_get_group (creation_events tc g1 g2 ch) = []"
    "filter is_create_group (creation_events tc g1 g2 ch) = []"
    by (simp_all add: creation_events_def)
  assume "map call_of ws = map Some (wait_calls tc ch)"
  from waits_only(1)[OF this] have w: "\<forall>e \<in> set ws. is_wait e" by (simp add: filter_id_conv)
  have "\<not> is_get_group e \<and> \<not> is_create_group e" if "is_wait e" for e
    using that by (cases e rule: is_wait.cases) auto
  with w show "filter is_get_group ws = []" "filter is_create_group ws = []"
    by (auto simp: filter_empty_conv)
qed

lemma init_success_groups:
  assumes "init env tc w = (Inr u, s)"
  obtains g_ok g_dummy i_ok i_dummy ch where
    "filter is_get_group (trace s) =
       [Called (Call (ok_vinyldns_client (new_context tc)) (Get_group ''ok'') (Some 200))
          (Response 200 g_ok)]"
    "filter is_create_group (trace s) =
       [Called (Call (dummy_vinyldns_client (new_context tc)) (Create_group dummy_group_request)
          (Some 200)) (Response 200 g_dummy)]"
    "py_getitem g_ok ''id'' = Inr i_ok"
    "py_getitem g_dummy ''id'' = Inr i_dummy"
    "filter is_create_zone (trace s) = creation_events tc i_ok i_dummy ch"
proof -
  from assms obtain s1 s2 ch s3 s4 where
    td: "tear_down env (start tc w) = (Inr (), s1)" and
    sg: "setup_groups env s1 = (Inr (), s2)" and
    cz: "create_zones env tc s2 = (Inr ch, s3)" and
    aw: "await_zones env ch s3 = (Inr (), s4)" and
    va: "validate_zones env s4 = (Inr (), s)"
    by (rule init_InrE)
  note d1 = emitsD[OF emits_tear_down_cleanup td]
  from d1(3) obtain x1 where x1: "trace s1 = x1" "list_all is_cleanup x1"
    by (auto simp: start_def)
  have c1: "ok_vinyldns_client (self s1) = ok_vinyldns_client (new_context tc)"
    "dummy_vinyldns_client (self s1) = dummy_vinyldns_client (new_context tc)"
    using d1(1,2) by (simp_all add: start_def)
  from setup_groups_Inr[OF sg] c1 obtain g_ok g_dummy p1 p2 where
    t2: "trace s2 = trace s1 @
       Called (Call (ok_vinyldns_client (new_context tc)) (Get_group ''ok'') (Some 200))
         (Response 200 g_ok) #
       p1 @
       Called (Call (dummy_vinyldns_client (new_context tc)) (Create_group dummy_group_request)
         (Some 200)) (Response 200 g_dummy) # p2" and
    p: "list_all is_poll p1" "list_all is_poll p2" and
    g: "ok_group (self s2) = g_ok" "dummy_group (self s2) = g_dummy"
    by auto
  note d2 = emitsD[OF emits_setup_groups sg]
  have c2: "ok_vinyldns_client (self s2) = ok_vinyldns_client (new_context tc)"
    "dummy_vinyldns_client (self s2) = dummy_vinyldns_client (new_context tc)"
    using c1 d2(1,2) by simp_all
  from create_zones_Inr[OF cz c2] g obtain i_ok i_dummy where
    i: "py_getitem g_ok ''id'' = Inr i_ok" "py_getitem g_dummy ''id'' = Inr i_dummy" and
    t3: "trace s3 = trace s2 @ creation_events tc i_ok i_dummy ch" and
    f3: "ok_vinyldns_client (self s3) = ok_vinyldns_client (new_context tc)"
        "dummy_vinyldns_client (self s3) = dummy_vinyldns_client (new_context tc)"
    using c2 by auto
  from await_zones_Inr[OF aw f3] obtain ws where
    t4: "trace s4 = trace s3 @ ws" and ws: "map call_of ws = map Some (wait_calls tc ch)"
    and f4: "self s4 = self s3"
    by blast
  have c4: "ok_vinyldns_client (self s4) = ok_vinyldns_client (new_context tc)"
    "dummy_vinyldns_client (self s4) = dummy_vinyldns_client (new_context tc)"
    using f3 f4 by simp_all
  from validate_zones_Inr[OF va c4] obtain ra rb where
    t5: "trace s = trace s4 @
        [Called (Call (dummy_vinyldns_client (new_context tc)) List_zones None) ra,
         Called (Call (ok_vinyldns_client (new_context tc)) List_zones None) rb]"
    by blast
  have t: "trace s = x1 @
       Called (Call (ok_vinyldns_client (new_context tc)) (Get_group ''ok'') (Some 200))
         (Response 200 g_ok) #
       p1 @
       Called (Call (dummy_vinyldns_client (new_context tc)) (Create_group dummy_group_request)
         (Some 200)) (Response 200 g_dummy) # p2 @
       creation_events tc i_ok i_dummy ch @ ws @
        [Called (Call (dummy_vinyldns_client (new_context tc)) List_zones None) ra,
         Called (Call (ok_vinyldns_client (new_context tc)) List_zones None) rb]"
    using t5 t4 t3 t2 x1 by simp
  have nz: "filter is_create_zone x1 = []"
    using emitsD(3)[OF emits_tear_down td] x1(1) by (auto simp: start_def filter_no_zone_event)
  show ?thesis
  proof (rule that[of g_ok g_dummy i_ok i_dummy ch])
    show "filter is_get_group (trace s) =
       [Called (Call (ok_vinyldns_client (new_context tc)) (Get_group ''ok'') (Some 200))
          (Response 200 g_ok)]"
      using x1(2) p ws by (simp add: t filter_polls filter_cleanups filter_groups_zone_events)
    show "filter is_create_group (trace s) =
       [Called (Call (dummy_vinyldns_client (new_context tc)) (Create_group dummy_group_request)
          (Some 200)) (Response 200 g_dummy)]"
      using x1(2) p ws by (simp add: t filter_polls filter_cleanups filter_groups_zone_events)
    show "filter is_create_zone (trace s) = creation_events tc i_ok i_dummy ch"
      using nz p ws
      by (simp add: t filter_no_zone_event[OF filter_polls(3)] waits_only)
  qed (fact i)+
qed

subsection \<open>A remote that returns the zone it was asked to create\<close>

lemma getitem_with_zone:
  "with_zone z r = Response code b \<Longrightarrow> py_getitem b ''zone'' = Inr z' \<Longrightarrow> z' = z"
  by (cases "(z, r)" rule: with_zone.cases) auto

lemma create_zone_requested_InrE:
  assumes "create_zone (returning_requested_zone base) c z n s = (Inr b, s')"
  obtains "trace s' = trace s @ [Called (Call c (Create_zone z) (Some n)) (Response n b)]"
    "self s' = self s"
    "\<And>z'. py_getitem b ''zone'' = Inr z' \<Longrightarrow> z' = z"
proof -
  obtain r w' where r: "respond base (Call c (Create_zone z) (Some n)) (world s) = (r, w')"
    by (cases "respond base (Call c (Create_zone z) (Some n)) (world s)")
  from assms r have "with_zone z r = Response n b"
    by (auto simp: create_zone_def invoke_def returning_requested_zone_def Let_def
        split: reply.splits if_splits)
  then have 3: "\<And>z'. py_getitem b ''zone'' = Inr z' \<Longrightarrow> z' = z"
    by (rule getitem_with_zone)
  from assms have "trace s' = trace s @ [Called (Call c (Create_zone z) (Some n)) (Response n b)]"
    "self s' = self s"
    unfolding create_zone_def by (elim invoke_InrE; simp)+
  then show ?thesis using 3 by (rule that)
qed

lemma create_zone_as_requested_InrE:
  assumes "create_zone_as (returning_requested_zone base) cf gf req store s = (Inr b, s')"
  obtains g where
    "py_getitem (gf (self s)) ''id'' = Inr g"
    "py_getitem b ''zone'' = Inr (req g)"
    "trace s' = trace s @ [Called (Call (cf (self s)) (Create_zone (req g)) (Some 202)) (Response 202 b)]"
    "self s' = store (req g) (self s)"
  using assms unfolding create_zone_as_def
  by (elim and_then_InrE create_zone_requested_InrE) auto

lemma create_zones_requested:
  assumes "create_zones (returning_requested_zone base) tc s = (Inr ch, s')"
    and "ok_vinyldns_client (self s) = ok_vinyldns_client (new_context tc)"
    and "dummy_vinyldns_client (self s) = dummy_vinyldns_client (new_context tc)"
  shows "\<exists>g1 g2.
     trace s' = trace s @ creation_events tc g1 g2 ch \<and>
     py_getitem (parent_zone_change ch) ''zone'' = Inr (parent_zone_request tc g1) \<and>
     parent_zone (self s') = Some (parent_zone_request tc g1) \<and>
     ok_vinyldns_client (self s') = ok_vinyldns_client (new_context tc) \<and>
     dummy_vinyldns_client (self s') = dummy_vinyldns_client (new_context tc)"
  using assms unfolding create_zones_def creation_events_def
  apply (elim and_then_InrE create_zone_as_requested_InrE)
  apply simp
  apply blast
  done

lemma init_requested_parent:
  assumes "init (returning_requested_zone base) tc w = (Inr u, s)"
  shows "\<exists>g1 g2 ch.
     filter is_create_zone (trace s) = creation_events tc g1 g2 ch \<and>
     py_getitem (parent_zone_change ch) ''zone'' = Inr (parent_zone_request tc g1) \<and>
     parent_zone (self s) = Some (parent_zone_request tc g1)"
proof -
  let ?env = "returning_requested_zone base"
  from assms obtain s1 s2 ch s3 s4 where
    td: "tear_down ?env (start tc w) = (Inr (), s1)" and
    sg: "setup_groups ?env s1 = (Inr (), s2)" and
    cz: "create_zones ?env tc s2 = (Inr ch, s3)" and
    aw: "await_zones ?env ch s3 = (Inr (), s4)" and
    va: "validate_zones ?env s4 = (Inr (), s)"
    by (rule init_InrE)
  note d1 = emitsD[OF emits_tear_down td]
  note d2 = emitsD[OF emits_setup_groups sg]
  from d1(3) obtain x1 where x1: "trace s1 = x1" "list_all (\<lambda>e. \<not> zone_event e) x1"
    by (auto simp: start_def)
  from d2(3) obtain x2 where x2: "trace s2 = trace s1 @ x2" "list_all (\<lambda>e. \<not> zone_event e) x2"
    by blast
  have c2: "ok_vinyldns_client (self s2) = ok_vinyldns_client (new_context tc)"
    "dummy_vinyldns_client (self s2) = dummy_vinyldns_client (new_context tc)"
    using d1(1,2) d2(1,2) by (simp_all add: start_def)
  from create_zones_requested[OF cz c2] obtain g1 g2 where
    t3: "trace s3 = trace s2 @ creation_events tc g1 g2 ch" and
    z: "py_getitem (parent_zone_change ch) ''zone'' = Inr (parent_zone_request tc g1)" and
    f3: "parent_zone (self s3) = Some (parent_zone_request tc g1)" and
    c3: "ok_vinyldns_client (self s3) = ok_vinyldns_client (new_context tc)"
    "dummy_vinyldns_client (self s3) = dummy_vinyldns_client (new_context tc)"
    by blast
  from await_zones_Inr[OF aw c3] obtain ws where
    t4: "trace s4 = trace s3 @ ws" and ws: "map call_of ws = map Some (wait_calls tc ch)"
    and f4: "self s4 = self s3"
    by blast
  have c4: "ok_vinyldns_client (self s4) = ok_vinyldns_client (new_context tc)"
    "dummy_vinyldns_client (self s4) = dummy_vinyldns_client (new_context tc)"
    using c3 f4 by simp_all
  from validate_zones_Inr[OF va c4] obtain ra rb where
    t5: "trace s = trace s4 @
        [Called (Call (dummy_vinyldns_client (new_context tc)) List_zones None) ra,
         Called (Call (ok_vinyldns_client (new_context tc)) List_zones None) rb]" and
    f5: "self s = self s4"
    by blast
  have "filter is_create_zone (trace s) = creation_events tc g1 g2 ch"
    using t5 t4 t3 x2 x1 filter_no_zone_event(1)[OF x1(2)] filter_no_zone_event(1)[OF x2(2)]
      waits_only(2)[OF ws]
    by simp
  moreover have "parent_zone (self s) = Some (parent_zone_request tc g1)"
    using f5 f4 f3 by simp
  ultimately show ?thesis using z by blast
qed

lemma happy_requested_run:
  "init (returning_requested_zone scripted) tc0 happy_script =
     (Inr (), snd (init (returning_requested_zone scripted) tc0 happy_script))"
proof -
  have "fst (init (returning_requested_zone scripted) tc0 happy_script) = Inr ()"
    by (simp add: init_def guarded_body_def fixture_body_def tear_down_def setup_groups_def
      create_zones_def create_zone_as_def await_zones_def validate_zones_def
      confirm_member_in_group_def confirm_loop.simps prog_defs scripted_def happy_script_def
      happy_prefix_def group_replies_def cleanup_replies_def ok_zones_listed_def start_def
      new_context_def returning_requested_zone_def change_of_def
      getitem_baseline_id getitem_g_dummy_id)
  then show ?thesis by (cases "init (returning_requested_zone scripted) tc0 happy_script") simp
qed

subsection \<open>\<^verbatim>\<open>tear_down\<close> on the modelled service\<close>

lemma user_of_clients:
  "user_of (ok_vinyldns_client (new_context tc)) = ''ok''"
  "user_of (dummy_vinyldns_client (new_context tc)) = ''dummy''"
  by (simp_all add: user_of_def new_context_def VinylDNSClient_def)

lemma invoke_world:
  "world (snd (invoke env c op st s)) = snd (respond env (Call c op st) (world s))"
  "self (snd (invoke env c op st s)) = self s"
  by (auto simp: invoke_def Let_def split: prod.splits reply.splits)

lemma invoke_fst:
  "fst (invoke env c op st s) =
     (case fst (respond env (Call c op st) (world s)) of
        Raises e \<Rightarrow> Inl e
      | Response code b \<Rightarrow> if status_accepted st code then Inr b else Inl AssertionError)"
  by (auto simp: invoke_def Let_def split: prod.splits reply.splits)

lemma ids_reset:
  "map fst (map (\<lambda>(j, owner, old). if j = i then (j, owner, g) else (j, owner, old)) gs) = map fst gs"
  by (induction gs) auto

lemma tear_down_cleanup_eval:
  assumes c: "clients_ok tc s"
  shows "fst (tear_down (cleanup_service vis other) s) =
           (if ''ok'' \<in> set (map fst (service_groups (swept vis (world s)))) then Inr ()
            else Inl AssertionError)"
    and "''ok'' \<in> set (map fst (service_groups (swept vis (world s)))) \<Longrightarrow>
           world (snd (tear_down (cleanup_service vis other) s)) = swept vis (world s)"
proof -
  let ?E = "cleanup_service vis other"
  let ?ok = "ok_vinyldns_client (new_context tc)"
  let ?dm = "dummy_vinyldns_client (new_context tc)"
  have rd: "ok_vinyldns_client (self s) = ?ok" "dummy_vinyldns_client (self s) = ?dm"
    using c by (simp_all add: clients_ok_def)
  define s1 where "s1 = snd (clear_zones ?E ?dm s)"
  have 1: "clear_zones ?E ?dm s = (Inr JNull, s1)"
    by (simp add: s1_def prod_eq_iff clear_zones_def invoke_fst cleanup_service_def)
  have w1: "world s1 = (world s)\<lparr>service_zones :=
      filter (\<lambda>e. \<not> sees_zone vis ''dummy'' e) (service_zones (world s))\<rparr>" and f1: "self s1 = self s"
    by (simp_all add: s1_def clear_zones_def invoke_world cleanup_service_def user_of_clients)
  define s2 where "s2 = snd (clear_zones ?E ?ok s1)"
  have 2: "clear_zones ?E ?ok s1 = (Inr JNull, s2)"
    by (simp add: s2_def prod_eq_iff clear_zones_def invoke_fst cleanup_service_def)
  have w2: "world s2 = (world s1)\<lparr>service_zones :=
      filter (\<lambda>e. \<not> sees_zone vis ''ok'' e) (service_zones (world s1))\<rparr>" and f2: "self s2 = self s1"
    by (simp_all add: s2_def clear_zones_def invoke_world cleanup_service_def user_of_clients)
  define s3 where "s3 = snd (clear_groups ?E ?dm [] s2)"
  have 3: "clear_groups ?E ?dm [] s2 = (Inr JNull, s3)"
    by (simp add: s3_def prod_eq_iff clear_groups_def invoke_fst cleanup_service_def)
  have w3: "world s3 = (world s2)\<lparr>service_groups :=
      filter (\<lambda>e. \<not> (sees_group vis ''dummy'' e \<and> fst e \<notin> set [])) (service_groups (world s2))\<rparr>"
    and f3: "self s3 = self s2"
    by (simp_all add: s3_def clear_groups_def invoke_world cleanup_service_def user_of_clients)
  define s4 where "s4 = snd (clear_groups ?E ?ok [''ok''] s3)"
  have 4: "clear_groups ?E ?ok [''ok''] s3 = (Inr JNull, s4)"
    by (simp add: s4_def prod_eq_iff clear_groups_def invoke_fst cleanup_service_def)
  have w4: "world s4 = (world s3)\<lparr>service_groups :=
      filter (\<lambda>e. \<not> (sees_group vis ''ok'' e \<and> fst e \<notin> set [''ok''])) (service_groups (world s3))\<rparr>"
    and f4: "self s4 = self s3"
    by (simp_all add: s4_def clear_groups_def invoke_world cleanup_service_def user_of_clients)
  have td: "tear_down ?E s =
      and_then (update_group ?E ?ok ''ok'' baseline_ok_group 200) (\<lambda>_. return ()) s4"
    unfolding tear_down_def
    by (simp add: and_then_def read_def rd f1 f2 f3 f4 1 2 3 4)
  have g4: "map fst (service_groups (swept vis (world s))) = map fst (service_groups (world s4))"
    unfolding swept_def by (simp only: service.simps ids_reset) (simp add: w4 w3 w2 w1)
  have u_fst: "fst (update_group ?E ?ok ''ok'' baseline_ok_group 200 s4) =
      (if ''ok'' \<in> set (map fst (service_groups (world s4))) then Inr baseline_ok_group
       else Inl AssertionError)"
    by (simp add: update_group_def invoke_fst cleanup_service_def)
  have u_world: "world (snd (update_group ?E ?ok ''ok'' baseline_ok_group 200 s4)) = swept vis (world s)"
    if "''ok'' \<in> set (map fst (service_groups (world s4)))"
    using that by (simp add: update_group_def invoke_world cleanup_service_def swept_def w4 w3 w2 w1)
  show "fst (tear_down ?E s) =
           (if ''ok'' \<in> set (map fst (service_groups (swept vis (world s)))) then Inr ()
            else Inl AssertionError)"
    using u_fst unfolding td g4
    by (cases "update_group ?E ?ok ''ok'' baseline_ok_group 200 s4")
       (auto simp: and_then_def return_def split: sum.splits if_splits)
  show "world (snd (tear_down ?E s)) = swept vis (world s)"
    if "''ok'' \<in> set (map fst (service_groups (swept vis (world s))))"
    using that u_fst u_world unfolding td g4
    by (cases "update_group ?E ?ok ''ok'' baseline_ok_group 200 s4")
       (auto simp: and_then_def return_def split: sum.splits if_splits)
qed

lemma swept_zones:
  "service_zones (swept vis w) =
     filter (\<lambda>e. \<not> sees_zone vis ''ok'' e \<and> \<not> sees_zone vis ''dummy'' e) (service_zones w)"
proof -
  have "filter (\<lambda>e. \<not> sees_zone vis ''ok'' e) (filter (\<lambda>e. \<not> sees_zone vis ''dummy'' e) zs) =
     filter (\<lambda>e. \<not> sees_zone vis ''ok'' e \<and> \<not> sees_zone vis ''dummy'' e) zs"
    for zs :: "(string \<times> json) list"
    by (induction zs) auto
  then show ?thesis by (simp add: swept_def)
qed

lemma swept_groups:
  "service_groups (swept vis w) =
     map (\<lambda>(i, owner, g). (i, owner, if i = ''ok'' then baseline_ok_group else g))
       (filter (\<lambda>e. \<not> sees_group vis ''dummy'' e \<and> (\<not> sees_group vis ''ok'' e \<or> fst e = ''ok''))
          (service_groups w))"
proof -
  have "map (\<lambda>(j, owner, old). if j = ''ok'' then (j, owner, baseline_ok_group) else (j, owner, old))
          (filter (\<lambda>e. \<not> (sees_group vis ''ok'' e \<and> fst e \<notin> set [''ok'']))
            (filter (\<lambda>e. \<not> (sees_group vis ''dummy'' e \<and> fst e \<notin> set [])) gs)) =
     map (\<lambda>(i, owner, g). (i, owner, if i = ''ok'' then baseline_ok_group else g))
       (filter (\<lambda>e. \<not> sees_group vis ''dummy'' e \<and> (\<not> sees_group vis ''ok'' e \<or> fst e = ''ok'')) gs)"
    for gs :: "(string \<times> string \<times> json) list"
    by (induction gs) auto
  then show ?thesis by (simp add: swept_def)
qed

lemma swept_no_owned_zone:
  assumes "owner_sees vis"
  shows "list_all (\<lambda>(owner, z). owner \<noteq> ''ok'' \<and> owner \<noteq> ''dummy'') (service_zones (swept vis w))"
  using assms by (auto simp: swept_zones list_all_iff owner_sees_def)

lemma swept_no_owned_group:
  assumes "owner_sees vis"
  shows "list_all (\<lambda>(i, owner, g). owner \<noteq> ''dummy'' \<and> (if owner = ''ok'' then i = ''ok'' else True))
           (service_groups (swept vis w))"
  using assms by (auto simp: swept_groups list_all_iff owner_sees_def)

lemma swept_ok_baseline:
  "list_all (\<lambda>(i, owner, g). if i = ''ok'' then g = baseline_ok_group else True)
     (service_groups (swept vis w))"
  by (auto simp: swept_groups list_all_iff)

lemma swept_ok_kept:
  assumes "''ok'' \<in> set (map fst (service_groups (swept vis w)))"
  shows "\<exists>owner g0. (''ok'', owner, g0) \<in> set (service_groups w) \<and>
           (''ok'', owner, baseline_ok_group) \<in> set (service_groups (swept vis w))"
proof -
  from assms obtain owner g where "(''ok'', owner, g) \<in> set (service_groups (swept vis w))"
    by auto
  then show ?thesis by (force simp: swept_groups)
qed

lemma named_in_baseline: "named_in baseline_ok_group = [''ok'', ''ok'']"
  by (simp add: named_in_def ids_under_def baseline_ok_group_def)

lemma swept_groups_unseen:
  assumes "owner_sees vis" and "at_most_named vis"
    and "e \<in> set (service_groups (swept vis w))"
  shows "\<not> sees_group vis ''dummy'' e \<and> (\<not> sees_group vis ''ok'' e \<or> fst e = ''ok'')"
proof -
  from assms(3) obtain i owner g where
    e0: "(i, owner, g) \<in> set (service_groups w)"
      "\<not> sees_group vis ''dummy'' (i, owner, g)"
      "\<not> sees_group vis ''ok'' (i, owner, g) \<or> i = ''ok''"
    and e: "e = (i, owner, if i = ''ok'' then baseline_ok_group else g)"
    by (auto simp: swept_groups)
  show ?thesis
  proof (cases "i = ''ok''")
    case False
    with e e0 show ?thesis by simp
  next
    case True
    from assms(1) e0(2) have "owner \<noteq> ''dummy''" by (auto simp: owner_sees_def)
    have "\<not> sees_group vis ''dummy'' (''ok'', owner, baseline_ok_group)"
    proof
      assume "sees_group vis ''dummy'' (''ok'', owner, baseline_ok_group)"
      with assms(2) have "owner = ''dummy'' \<or> ''dummy'' \<in> set (named_in baseline_ok_group)"
        unfolding at_most_named_def by blast
      with \<open>owner \<noteq> ''dummy''\<close> show False by (simp add: named_in_baseline)
    qed
    with True e show ?thesis by simp
  qed
qed

lemma swept_idem:
  assumes "owner_sees vis" and "at_most_named vis"
  shows "swept vis (swept vis w) = swept vis w"
proof -
  have z: "service_zones (swept vis (swept vis w)) = service_zones (swept vis w)"
    by (simp add: swept_zones)
  let ?F = "\<lambda>e. \<not> sees_group vis ''dummy'' e \<and> (\<not> sees_group vis ''ok'' e \<or> fst e = ''ok'')"
  let ?u = "\<lambda>(i :: string, owner :: string, g). (i, owner, if i = ''ok'' then baseline_ok_group else g)"
  have "filter ?F (service_groups (swept vis w)) = service_groups (swept vis w)"
    using swept_groups_unseen[OF assms] by (simp add: filter_id_conv)
  then have "service_groups (swept vis (swept vis w)) = map ?u (service_groups (swept vis w))"
    by (simp add: swept_groups[of vis "swept vis w"])
  also have "\<dots> = service_groups (swept vis w)"
    by (simp add: swept_groups[of vis w] split_def)
  finally have "service_groups (swept vis (swept vis w)) = service_groups (swept vis w)" .
  with z show ?thesis by simp
qed

lemma tear_down_cleanup_Inr:
  assumes "clients_ok tc s" and "tear_down (cleanup_service vis other) s = (Inr u, s')"
  shows "world s' = swept vis (world s)"
    and "''ok'' \<in> set (map fst (service_groups (swept vis (world s))))"
    and "clients_ok tc s'"
proof -
  from tear_down_cleanup_eval(1)[OF assms(1), of vis other] assms(2)
  show ok: "''ok'' \<in> set (map fst (service_groups (swept vis (world s))))"
    by (simp split: if_splits)
  from tear_down_cleanup_eval(2)[OF assms(1) ok, of other] assms(2)
  show "world s' = swept vis (world s)" by simp
  from emitsD(1,2)[OF emits_tear_down assms(2)] assms(1)
  show "clients_ok tc s'" by (simp add: clients_ok_def)
qed

lemma baseline_members:
  "py_getitem baseline_ok_group ''members'' = Inr (JList [dict [(''id'', JStr ''ok'')]])"
  "py_getitem baseline_ok_group ''admins'' = Inr (JList [dict [(''id'', JStr ''ok'')]])"
  by (simp_all add: baseline_ok_group_def)

lemma by_membership_ok: "owner_sees by_membership" "at_most_named by_membership"
  by (simp_all add: owner_sees_def at_most_named_def by_membership_def)

lemma dirty_swept:
  "swept by_membership dirty_service =
     \<lparr>service_zones = [(''other'', zone_named ''other.'')],
      service_groups = [(''ok'', ''ok'', baseline_ok_group),
        (''other-group'', ''other'', dict [(''id'', JStr ''other-group'')])]\<rparr>"
  by (simp add: swept_def dirty_service_def by_membership_def acl_users_def named_in_def
      ids_under_def zone_named_def g_dummy_def)

lemma dirty_run:
  "clients_ok tc0 (start tc0 dirty_service)"
  "tear_down (cleanup_service by_membership no_other) (start tc0 dirty_service) =
     (Inr (), snd (tear_down (cleanup_service by_membership no_other) (start tc0 dirty_service)))"
proof -
  show c: "clients_ok tc0 (start tc0 dirty_service)" by (simp add: clients_ok_def start_def)
  have "''ok'' \<in> set (map fst (service_groups (swept by_membership (world (start tc0 dirty_service)))))"
    by (simp add: start_def dirty_swept)
  with tear_down_cleanup_eval(1)[OF c, of by_membership no_other]
  show "tear_down (cleanup_service by_membership no_other) (start tc0 dirty_service) =
     (Inr (), snd (tear_down (cleanup_service by_membership no_other) (start tc0 dirty_service)))"
    by (simp add: prod_eq_iff)
qed

text \<open>When the second user sees every group with the id \<^verbatim>\<open>ok\<close>, its \<^verbatim>\<open>clear_groups\<close>, which
  excludes nothing, deletes them; the update then answers 404 and \<^verbatim>\<open>tear_down\<close> raises.\<close>

lemma tear_down_raises_when_seen:
  assumes "clients_ok tc s"
    and "\<And>e. e \<in> set (service_groups (world s)) \<Longrightarrow> fst e = ''ok'' \<Longrightarrow> sees_group vis ''dummy'' e"
  shows "fst (tear_down (cleanup_service vis other) s) = Inl AssertionError"
proof -
  have "''ok'' \<notin> set (map fst (service_groups (swept vis (world s))))"
    using assms(2) by (auto simp: swept_groups)
  with tear_down_cleanup_eval(1)[OF assms(1), of vis other] show ?thesis by simp
qed

section \<open>The claims\<close>

text \<open>
  C1. A constructor call that returns ends with the two listings, the second user's
  and then the first user's, which are its only calls of \<^verbatim>\<open>list_zones\<close>; the second
  user's listing holds exactly 2 zones and the first user's exactly 7. In any constructor
  call, a listing of another size makes the outcome a failed assertion.
\<close>

theorem init_validates_zone_counts:
  assumes "init env tc w = (res, s)"
  shows "(res = Inr () \<longrightarrow>
           (\<exists>pre ra rb.
              trace s = pre @
                [Called (Call (dummy_vinyldns_client (new_context tc)) List_zones None) ra,
                 Called (Call (ok_vinyldns_client (new_context tc)) List_zones None) rb] \<and>
              filter is_list_zones pre = [] \<and>
              listed_count ra = Some 2 \<and> listed_count rb = Some 7)) \<and>
         (list_ex count_mismatch (trace s) \<longrightarrow> res = Inl AssertionError)"
proof (intro conjI impI)
  assume "res = Inr ()"
  with assms have "init env tc w = (Inr (), s)" by simp
  then show "\<exists>pre ra rb.
      trace s = pre @
        [Called (Call (dummy_vinyldns_client (new_context tc)) List_zones None) ra,
         Called (Call (ok_vinyldns_client (new_context tc)) List_zones None) rb] \<and>
      filter is_list_zones pre = [] \<and>
      listed_count ra = Some 2 \<and> listed_count rb = Some 7"
  proof (rule init_success_shape)
    fix pre g1 g2 ch ws ra rb
    assume t: "trace s = pre @ creation_events tc g1 g2 ch @ ws @
         [Called (Call (dummy_vinyldns_client (new_context tc)) List_zones None) ra,
          Called (Call (ok_vinyldns_client (new_context tc)) List_zones None) rb]"
      and pre: "list_all (\<lambda>e. \<not> zone_event e) pre"
      and ws: "map call_of ws = map Some (wait_calls tc ch)"
      and cnt: "listed_count ra = Some 2" "listed_count rb = Some 7"
    have "trace s = (pre @ creation_events tc g1 g2 ch @ ws) @
         [Called (Call (dummy_vinyldns_client (new_context tc)) List_zones None) ra,
          Called (Call (ok_vinyldns_client (new_context tc)) List_zones None) rb]"
      using t by simp
    moreover have "filter is_list_zones (pre @ creation_events tc g1 g2 ch @ ws) = []"
      using pre ws by (simp add: filter_no_zone_event waits_only)
    ultimately show ?thesis using cnt by blast
  qed
next
  assume "list_ex count_mismatch (trace s)"
  moreover have "list_ex count_mismatch (trace s) \<longrightarrow> res = Inl AssertionError"
  proof (rule fails_on_init[OF fixture_body_count_mismatch _ assms])
    show "zone_event e" if "count_mismatch e" for e
      using that by (cases e rule: count_mismatch.cases) (auto simp: zone_event_def)
  qed
  ultimately show "res = Inl AssertionError" by simp
qed

theorem init_validates_zone_counts_witness:
  "init scripted tc0 happy_script = (Inr (), snd (init scripted tc0 happy_script)) \<and>
   (\<exists>pre ra rb.
      trace (snd (init scripted tc0 happy_script)) = pre @
        [Called (Call (dummy_vinyldns_client (new_context tc0)) List_zones None) ra,
         Called (Call (ok_vinyldns_client (new_context tc0)) List_zones None) rb] \<and>
      filter is_list_zones pre = [] \<and>
      listed_count ra = Some 2 \<and> listed_count rb = Some 7) \<and>
   list_ex count_mismatch (trace (snd (init scripted tc0 leaked_script))) \<and>
   fst (init scripted tc0 leaked_script) = Inl AssertionError"
proof -
  have 1: "\<exists>pre ra rb.
      trace (snd (init scripted tc0 happy_script)) = pre @
        [Called (Call (dummy_vinyldns_client (new_context tc0)) List_zones None) ra,
         Called (Call (ok_vinyldns_client (new_context tc0)) List_zones None) rb] \<and>
      filter is_list_zones pre = [] \<and>
      listed_count ra = Some 2 \<and> listed_count rb = Some 7"
    using init_validates_zone_counts[OF happy_init] by simp
  have "init scripted tc0 leaked_script =
      (fst (init scripted tc0 leaked_script), snd (init scripted tc0 leaked_script))"
    by simp
  from init_validates_zone_counts[OF this] leaked_run
  have 2: "fst (init scripted tc0 leaked_script) = Inl AssertionError" by simp
  from 1 2 happy_init leaked_run show ?thesis by simp
qed

text \<open>
  C2. When the clean-up at the start has gone through and the body of the \<^verbatim>\<open>try\<close>
  statement (the fetch of the canonical group, the two confirmations, the creation of
  the second group, the zone creations, the waits, the validation) raises \<open>e\<close>, the
  constructor runs \<^verbatim>\<open>tear_down\<close> from the state the body left, starting with
  \<^verbatim>\<open>clear_zones\<close> under the second user, and raises \<open>e\<close> whatever the outcome of that
  \<^verbatim>\<open>tear_down\<close> is.
\<close>

theorem init_reraises_after_tear_down:
  assumes "tear_down env (start tc w) = (Inr u, s1)"
    and "fixture_body env tc s1 = (Inl e, s2)"
  shows "init env tc w = (Inl e, snd (tear_down env s2)) \<and>
     (\<exists>rep rest. trace (snd (tear_down env s2)) = trace s2 @
        Called (Call (dummy_vinyldns_client (new_context tc)) Clear_zones None) rep # rest)"
proof -
  have 1: "init env tc w = (Inl e, snd (tear_down env s2))"
    using assms by (simp add: init_def and_then_def guarded_body_def split: prod.splits)
  have "clients_ok tc (start tc w)" by (simp add: clients_ok_def start_def)
  with emitsD(1,2)[OF emits_tear_down assms(1)] have "clients_ok tc s1"
    by (simp add: clients_ok_def)
  from fails_onD(1)[OF fixture_body_count_mismatch this assms(2)]
  have c2: "dummy_vinyldns_client (self s2) = dummy_vinyldns_client (new_context tc)"
    by (simp add: clients_ok_def)
  have "tear_down env s2 = (fst (tear_down env s2), snd (tear_down env s2))" by simp
  from tear_down_first_event[OF this] c2
  have 2: "\<exists>rep rest. trace (snd (tear_down env s2)) = trace s2 @
        Called (Call (dummy_vinyldns_client (new_context tc)) Clear_zones None) rep # rest"
    by simp
  from 1 2 show ?thesis by (rule conjI)
qed

theorem init_reraises_after_tear_down_witness:
  "tear_down scripted (start tc0 failing_script) =
     (Inr (), snd (tear_down scripted (start tc0 failing_script))) \<and>
   fixture_body scripted tc0 (snd (tear_down scripted (start tc0 failing_script))) =
     (Inl AssertionError,
      snd (fixture_body scripted tc0 (snd (tear_down scripted (start tc0 failing_script))))) \<and>
   fst (tear_down scripted
     (snd (fixture_body scripted tc0 (snd (tear_down scripted (start tc0 failing_script)))))) =
     Inl (Failure 7) \<and>
   fst (init scripted tc0 failing_script) = Inl AssertionError"
proof -
  let ?s1 = "snd (tear_down scripted (start tc0 failing_script))"
  let ?s2 = "snd (fixture_body scripted tc0 ?s1)"
  have a: "tear_down scripted (start tc0 failing_script) = (Inr (), ?s1)"
    using failing_run by (simp add: prod_eq_iff)
  have b: "fixture_body scripted tc0 ?s1 = (Inl AssertionError, ?s2)"
    using failing_run by (simp add: prod_eq_iff)
  from init_reraises_after_tear_down[OF a b]
  have c: "fst (init scripted tc0 failing_script) = Inl AssertionError" by simp
  from failing_run
  have d: "fst (tear_down scripted ?s2) = Inl (Failure 7)" by (rule conjunct2[THEN conjunct2])
  from a b d c show ?thesis by (intro conjI)
qed

text \<open>
  C3. On the modelled service, whatever else a user sees besides what it owns: after a
  \<^verbatim>\<open>tear_down\<close> that returns, the zones left are those neither user saw, and none of
  them is owned by the first or the second user; the groups left are those the second
  user did not see and the first user did not see or that have the id \<^verbatim>\<open>ok\<close>, none of
  them is owned by the second user, and one owned by the first has the id \<^verbatim>\<open>ok\<close>; every
  group with the id \<^verbatim>\<open>ok\<close> has the representation \<^verbatim>\<open>tear_down\<close> sends, whose members and
  admins are exactly the user \<^verbatim>\<open>ok\<close>; and a group with the id \<^verbatim>\<open>ok\<close> that was there
  before is still there, under the same owner, with that representation.
\<close>

theorem tear_down_resets_service:
  assumes "owner_sees vis" and "clients_ok tc s"
    and "tear_down (cleanup_service vis other) s = (Inr u, s')"
  shows "service_zones (world s') =
           filter (\<lambda>e. \<not> sees_zone vis ''ok'' e \<and> \<not> sees_zone vis ''dummy'' e)
             (service_zones (world s)) \<and>
         list_all (\<lambda>(owner, z). owner \<noteq> ''ok'' \<and> owner \<noteq> ''dummy'') (service_zones (world s')) \<and>
         service_groups (world s') =
           map (\<lambda>(i, owner, g). (i, owner, if i = ''ok'' then baseline_ok_group else g))
             (filter (\<lambda>e. \<not> sees_group vis ''dummy'' e \<and>
                          (\<not> sees_group vis ''ok'' e \<or> fst e = ''ok''))
                (service_groups (world s))) \<and>
         list_all (\<lambda>(i, owner, g). owner \<noteq> ''dummy'' \<and> (if owner = ''ok'' then i = ''ok'' else True))
           (service_groups (world s')) \<and>
         list_all (\<lambda>(i, owner, g). if i = ''ok'' then g = baseline_ok_group else True)
           (service_groups (world s')) \<and>
         (\<exists>owner g0. (''ok'', owner, g0) \<in> set (service_groups (world s)) \<and>
            (''ok'', owner, baseline_ok_group) \<in> set (service_groups (world s'))) \<and>
         py_getitem baseline_ok_group ''members'' = Inr (JList [dict [(''id'', JStr ''ok'')]]) \<and>
         py_getitem baseline_ok_group ''admins'' = Inr (JList [dict [(''id'', JStr ''ok'')]])"
proof -
  note r = tear_down_cleanup_Inr[OF assms(2,3)]
  have 1: "service_zones (world s') =
           filter (\<lambda>e. \<not> sees_zone vis ''ok'' e \<and> \<not> sees_zone vis ''dummy'' e)
             (service_zones (world s))"
    unfolding r(1) by (rule swept_zones)
  have 2: "list_all (\<lambda>(owner, z). owner \<noteq> ''ok'' \<and> owner \<noteq> ''dummy'') (service_zones (world s'))"
    unfolding r(1) by (rule swept_no_owned_zone[OF assms(1)])
  have 3: "service_groups (world s') =
           map (\<lambda>(i, owner, g). (i, owner, if i = ''ok'' then baseline_ok_group else g))
             (filter (\<lambda>e. \<not> sees_group vis ''dummy'' e \<and>
                          (\<not> sees_group vis ''ok'' e \<or> fst e = ''ok''))
                (service_groups (world s)))"
    unfolding r(1) by (rule swept_groups)
  have 4: "list_all (\<lambda>(i, owner, g). owner \<noteq> ''dummy'' \<and> (if owner = ''ok'' then i = ''ok'' else True))
           (service_groups (world s'))"
    unfolding r(1) by (rule swept_no_owned_group[OF assms(1)])
  have 5: "list_all (\<lambda>(i, owner, g). if i = ''ok'' then g = baseline_ok_group else True)
           (service_groups (world s'))"
    unfolding r(1) by (rule swept_ok_baseline)
  have 6: "\<exists>owner g0. (''ok'', owner, g0) \<in> set (service_groups (world s)) \<and>
            (''ok'', owner, baseline_ok_group) \<in> set (service_groups (world s'))"
    unfolding r(1) by (rule swept_ok_kept[OF r(2)])
  from 1 2 3 4 5 6 baseline_members show ?thesis by (intro conjI)
qed

theorem tear_down_resets_service_witness:
  "owner_sees by_membership \<and>
   clients_ok tc0 (start tc0 dirty_service) \<and>
   tear_down (cleanup_service by_membership no_other) (start tc0 dirty_service) =
     (Inr (), snd (tear_down (cleanup_service by_membership no_other) (start tc0 dirty_service))) \<and>
   service_zones (world (snd (tear_down (cleanup_service by_membership no_other) (start tc0 dirty_service)))) =
     [(''other'', zone_named ''other.'')] \<and>
   service_groups (world (snd (tear_down (cleanup_service by_membership no_other) (start tc0 dirty_service)))) =
     [(''ok'', ''ok'', baseline_ok_group),
      (''other-group'', ''other'', dict [(''id'', JStr ''other-group'')])]"
proof -
  note t = tear_down_resets_service[OF by_membership_ok(1) dirty_run]
  have w: "world (start tc0 dirty_service) = dirty_service" by (simp add: start_def)
  have z: "filter (\<lambda>e. \<not> sees_zone by_membership ''ok'' e \<and> \<not> sees_zone by_membership ''dummy'' e)
             (service_zones (world (start tc0 dirty_service))) =
           [(''other'', zone_named ''other.'')]"
    unfolding w swept_zones[symmetric] by (simp add: dirty_swept)
  have g: "map (\<lambda>(i, owner, g). (i, owner, if i = ''ok'' then baseline_ok_group else g))
             (filter (\<lambda>e. \<not> sees_group by_membership ''dummy'' e \<and>
                          (\<not> sees_group by_membership ''ok'' e \<or> fst e = ''ok''))
                (service_groups (world (start tc0 dirty_service)))) =
           [(''ok'', ''ok'', baseline_ok_group),
            (''other-group'', ''other'', dict [(''id'', JStr ''other-group'')])]"
    unfolding w swept_groups[symmetric] by (simp add: dirty_swept)
  from t have "service_zones (world (snd (tear_down (cleanup_service by_membership no_other) (start tc0 dirty_service)))) =
     [(''other'', zone_named ''other.'')]"
    unfolding z by (rule conjunct1)
  moreover from t have "service_groups (world (snd (tear_down (cleanup_service by_membership no_other) (start tc0 dirty_service)))) =
     [(''ok'', ''ok'', baseline_ok_group),
      (''other-group'', ''other'', dict [(''id'', JStr ''other-group'')])]"
    unfolding g by (elim conjE)
  ultimately show ?thesis using by_membership_ok(1) dirty_run by (intro conjI)
qed

text \<open>
  C4. On the modelled service, when a user sees at most the groups it owns and those that
  name it: a second \<^verbatim>\<open>tear_down\<close> right after one that returned returns as well and
  leaves the service as the first left it: no zone of the first or second user, no group
  of theirs other than the first user's group \<^verbatim>\<open>ok\<close>, and every group with id \<^verbatim>\<open>ok\<close> at
  the representation \<^verbatim>\<open>tear_down\<close> sends.
\<close>

theorem tear_down_twice:
  assumes "owner_sees vis" and "at_most_named vis" and "clients_ok tc s"
    and "tear_down (cleanup_service vis other) s = (Inr u, s1)"
  shows "fst (tear_down (cleanup_service vis other) s1) = Inr () \<and>
         world (snd (tear_down (cleanup_service vis other) s1)) = world s1 \<and>
         list_all (\<lambda>(owner, z). owner \<noteq> ''ok'' \<and> owner \<noteq> ''dummy'') (service_zones (world s1)) \<and>
         list_all (\<lambda>(i, owner, g). owner \<noteq> ''dummy'' \<and> (if owner = ''ok'' then i = ''ok'' else True))
           (service_groups (world s1)) \<and>
         list_all (\<lambda>(i, owner, g). if i = ''ok'' then g = baseline_ok_group else True)
           (service_groups (world s1))"
proof -
  note r = tear_down_cleanup_Inr[OF assms(3,4)]
  note idem = swept_idem[OF assms(1,2)]
  have ok: "''ok'' \<in> set (map fst (service_groups (swept vis (world s1))))"
    using r(2) unfolding r(1) idem .
  have 1: "fst (tear_down (cleanup_service vis other) s1) = Inr ()"
    using tear_down_cleanup_eval(1)[OF r(3), of vis other] ok by simp
  have 2: "world (snd (tear_down (cleanup_service vis other) s1)) = world s1"
    using tear_down_cleanup_eval(2)[OF r(3) ok, of other] unfolding r(1) idem .
  have 3: "list_all (\<lambda>(owner, z). owner \<noteq> ''ok'' \<and> owner \<noteq> ''dummy'') (service_zones (world s1))"
    unfolding r(1) by (rule swept_no_owned_zone[OF assms(1)])
  have 4: "list_all (\<lambda>(i, owner, g). owner \<noteq> ''dummy'' \<and> (if owner = ''ok'' then i = ''ok'' else True))
           (service_groups (world s1))"
    unfolding r(1) by (rule swept_no_owned_group[OF assms(1)])
  have 5: "list_all (\<lambda>(i, owner, g). if i = ''ok'' then g = baseline_ok_group else True)
           (service_groups (world s1))"
    unfolding r(1) by (rule swept_ok_baseline)
  from 1 2 3 4 5 show ?thesis by (intro conjI)
qed

theorem tear_down_twice_witness:
  "owner_sees by_membership \<and> at_most_named by_membership \<and>
   clients_ok tc0 (start tc0 dirty_service) \<and>
   tear_down (cleanup_service by_membership no_other) (start tc0 dirty_service) =
     (Inr (), snd (tear_down (cleanup_service by_membership no_other) (start tc0 dirty_service))) \<and>
   fst (tear_down (cleanup_service by_membership no_other)
     (snd (tear_down (cleanup_service by_membership no_other) (start tc0 dirty_service)))) = Inr () \<and>
   world (snd (tear_down (cleanup_service by_membership no_other)
     (snd (tear_down (cleanup_service by_membership no_other) (start tc0 dirty_service))))) =
     world (snd (tear_down (cleanup_service by_membership no_other) (start tc0 dirty_service)))"
proof -
  note t = tear_down_twice[OF by_membership_ok dirty_run]
  from t have "fst (tear_down (cleanup_service by_membership no_other)
     (snd (tear_down (cleanup_service by_membership no_other) (start tc0 dirty_service)))) = Inr ()"
    by (rule conjunct1)
  moreover from t have "world (snd (tear_down (cleanup_service by_membership no_other)
     (snd (tear_down (cleanup_service by_membership no_other) (start tc0 dirty_service))))) =
     world (snd (tear_down (cleanup_service by_membership no_other) (start tc0 dirty_service)))"
    by (elim conjE)
  ultimately show ?thesis using by_membership_ok dirty_run by (intro conjI)
qed

text \<open>
  C5. The claim is what the constant \<^verbatim>\<open>retries = 2\<close> announces, and the code misses it:
  the loop runs while \<^verbatim>\<open>retries >= 0\<close>, three times, after the listing made before the
  loop. On a remote where the membership never shows, \<^verbatim>\<open>confirm_member_in_group\<close>
  lists the groups four times before the assertion fails, and the first two listings
  have no sleep between them.
\<close>

theorem confirm_member_lists_four_times:
  "fst (confirm_member_in_group unconverged (ok_vinyldns_client (new_context tc0))
          baseline_ok_group (start tc0 ())) = Inl AssertionError \<and>
   length (filter is_list_groups
     (trace (snd (confirm_member_in_group unconverged (ok_vinyldns_client (new_context tc0))
          baseline_ok_group (start tc0 ()))))) = 4 \<and>
   take 2 (trace (snd (confirm_member_in_group unconverged (ok_vinyldns_client (new_context tc0))
          baseline_ok_group (start tc0 ())))) =
     [Called (Call (ok_vinyldns_client (new_context tc0)) List_all_my_groups (Some 200))
        (Response 200 (JList [])),
      Called (Call (ok_vinyldns_client (new_context tc0)) List_all_my_groups (Some 200))
        (Response 200 (JList []))]"
  using unconverged_run by simp

text \<open>
  C6. A constructor call that returns has issued exactly eight zone creations, in the
  order of the source, with the requests written out below: \<^verbatim>\<open>ok.\<close> (not shared, first
  user), \<^verbatim>\<open>dummy.\<close> (not shared, second user), the IPv6 and IPv4 reverse zones (shared,
  first user), the classless base and delegation zones (not shared, first user),
  \<^verbatim>\<open>system-test.\<close> (shared, first user) and \<^verbatim>\<open>parent.com.\<close> (not shared, first user, with
  its one rule). The admin group of each request is the id of the group the one
  \<^verbatim>\<open>get_group('ok')\<close> of the run returned, for \<^verbatim>\<open>dummy.\<close> the id of the group its one
  \<^verbatim>\<open>create_group\<close> returned. Each creation asked for status 202 and was answered with 202.
  In any constructor call, a zone creation answered with another status makes the
  outcome a failed assertion, never a success.
\<close>

theorem init_creates_catalog:
  assumes "init env tc w = (res, s)"
  shows "(res = Inr () \<longrightarrow>
     (let okc = \<lparr>url = vinyldns_url tc, access_key = ''okAccessKey'', secret_key = ''okSecretKey''\<rparr>;
          dc = \<lparr>url = vinyldns_url tc, access_key = ''dummyAccessKey'',
                 secret_key = ''dummySecretKey''\<rparr>;
          conn = (\<lambda>nm. dict [(''name'', JStr nm),
                               (''keyName'', JStr (dns_key_name tc)),
                               (''key'', JStr (dns_key tc)),
                               (''primaryServer'', JStr (dns_ip tc))]);
          zone = (\<lambda>nm sh i cn. dict [(''name'', JStr nm),
                                     (''email'', JStr ''test@test.com''),
                                     (''shared'', JBool sh),
                                     (''adminGroupId'', i),
                                     (''connection'', conn cn),
                                     (''transferConnection'', conn cn)]);
          parent = (\<lambda>i. dict [(''name'', JStr ''parent.com.''),
                               (''email'', JStr ''test@test.com''),
                               (''shared'', JBool False),
                               (''adminGroupId'', i),
                               (''acl'', dict [(''rules'', JList
                                  [dict [(''accessLevel'', JStr ''Delete''),
                                         (''description'', JStr ''some_test_rule''),
                                         (''userId'', JStr ''dummy'')]])]),
                               (''connection'', conn ''parent.''),
                               (''transferConnection'', conn ''parent.'')]);
          created = (\<lambda>c z b. Called (Call c (Create_zone z) (Some 202)) (Response 202 b))
      in \<exists>g_ok g_dummy i_ok i_dummy b1 b2 b3 b4 b5 b6 b7 b8.
           filter is_get_group (trace s) =
             [Called (Call okc (Get_group ''ok'') (Some 200)) (Response 200 g_ok)] \<and>
           filter is_create_group (trace s) =
             [Called (Call dc (Create_group (dict
                 [(''name'', JStr ''dummy-group''),
                  (''email'', JStr ''test@test.com''),
                  (''description'', JStr ''this is a description''),
                  (''members'', JList [dict [(''id'', JStr ''dummy'')]]),
                  (''admins'', JList [dict [(''id'', JStr ''dummy'')]])])) (Some 200))
                (Response 200 g_dummy)] \<and>
           py_getitem g_ok ''id'' = Inr i_ok \<and>
           py_getitem g_dummy ''id'' = Inr i_dummy \<and>
           filter is_create_zone (trace s) =
             [created okc (zone ''ok.'' False i_ok ''ok.'') b1,
              created dc (zone ''dummy.'' False i_dummy ''dummy.'') b2,
              created okc (zone ''1.9.e.f.c.c.7.2.9.6.d.f.ip6.arpa.'' True i_ok ''ip6.'') b3,
              created okc (zone ''30.172.in-addr.arpa.'' True i_ok ''ip4.'') b4,
              created okc (zone ''2.0.192.in-addr.arpa.'' False i_ok ''classless-base.'') b5,
              created okc (zone ''192/30.2.0.192.in-addr.arpa.'' False i_ok ''classless.'') b6,
              created okc (zone ''system-test.'' True i_ok ''system-test.'') b7,
              created okc (parent i_ok) b8])) \<and>
     (list_ex (\<lambda>e. is_create_zone e \<and> rejected e) (trace s) \<longrightarrow> res = Inl AssertionError)"
proof (intro conjI impI)
  assume "res = Inr ()"
  with assms have "init env tc w = (Inr (), s)" by simp
  then obtain g_ok g_dummy i_ok i_dummy ch where
    f: "filter is_get_group (trace s) =
         [Called (Call (ok_vinyldns_client (new_context tc)) (Get_group ''ok'') (Some 200))
            (Response 200 g_ok)]"
       "filter is_create_group (trace s) =
         [Called (Call (dummy_vinyldns_client (new_context tc)) (Create_group dummy_group_request)
            (Some 200)) (Response 200 g_dummy)]"
       "py_getitem g_ok ''id'' = Inr i_ok"
       "py_getitem g_dummy ''id'' = Inr i_dummy"
       "filter is_create_zone (trace s) = creation_events tc i_ok i_dummy ch"
    by (rule init_success_groups)
  show "(let okc = \<lparr>url = vinyldns_url tc, access_key = ''okAccessKey'', secret_key = ''okSecretKey''\<rparr>;
          dc = \<lparr>url = vinyldns_url tc, access_key = ''dummyAccessKey'',
                 secret_key = ''dummySecretKey''\<rparr>;
          conn = (\<lambda>nm. dict [(''name'', JStr nm),
                               (''keyName'', JStr (dns_key_name tc)),
                               (''key'', JStr (dns_key tc)),
                               (''primaryServer'', JStr (dns_ip tc))]);
          zone = (\<lambda>nm sh i cn. dict [(''name'', JStr nm),
                                     (''email'', JStr ''test@test.com''),
                                     (''shared'', JBool sh),
                                     (''adminGroupId'', i),
                                     (''connection'', conn cn),
                                     (''transferConnection'', conn cn)]);
          parent = (\<lambda>i. dict [(''name'', JStr ''parent.com.''),
                               (''email'', JStr ''test@test.com''),
                               (''shared'', JBool False),
                               (''adminGroupId'', i),
                               (''acl'', dict [(''rules'', JList
                                  [dict [(''accessLevel'', JStr ''Delete''),
                                         (''description'', JStr ''some_test_rule''),
                                         (''userId'', JStr ''dummy'')]])]),
                               (''connection'', conn ''parent.''),
                               (''transferConnection'', conn ''parent.'')]);
          created = (\<lambda>c z b. Called (Call c (Create_zone z) (Some 202)) (Response 202 b))
      in \<exists>g_ok g_dummy i_ok i_dummy b1 b2 b3 b4 b5 b6 b7 b8.
           filter is_get_group (trace s) =
             [Called (Call okc (Get_group ''ok'') (Some 200)) (Response 200 g_ok)] \<and>
           filter is_create_group (trace s) =
             [Called (Call dc (Create_group (dict
                 [(''name'', JStr ''dummy-group''),
                  (''email'', JStr ''test@test.com''),
                  (''description'', JStr ''this is a description''),
                  (''members'', JList [dict [(''id'', JStr ''dummy'')]]),
                  (''admins'', JList [dict [(''id'', JStr ''dummy'')]])])) (Some 200))
                (Response 200 g_dummy)] \<and>
           py_getitem g_ok ''id'' = Inr i_ok \<and>
           py_getitem g_dummy ''id'' = Inr i_dummy \<and>
           filter is_create_zone (trace s) =
             [created okc (zone ''ok.'' False i_ok ''ok.'') b1,
              created dc (zone ''dummy.'' False i_dummy ''dummy.'') b2,
              created okc (zone ''1.9.e.f.c.c.7.2.9.6.d.f.ip6.arpa.'' True i_ok ''ip6.'') b3,
              created okc (zone ''30.172.in-addr.arpa.'' True i_ok ''ip4.'') b4,
              created okc (zone ''2.0.192.in-addr.arpa.'' False i_ok ''classless-base.'') b5,
              created okc (zone ''192/30.2.0.192.in-addr.arpa.'' False i_ok ''classless.'') b6,
              created okc (zone ''system-test.'' True i_ok ''system-test.'') b7,
              created okc (parent i_ok) b8])"
    unfolding Let_def
    apply (rule exI[of _ g_ok], rule exI[of _ g_dummy], rule exI[of _ i_ok], rule exI[of _ i_dummy])
    apply (rule exI[of _ "ok_zone_change ch"], rule exI[of _ "dummy_zone_change ch"])
    apply (rule exI[of _ "ip6_reverse_zone_change ch"], rule exI[of _ "ip4_reverse_zone_change ch"])
    apply (rule exI[of _ "classless_base_zone_change ch"])
    apply (rule exI[of _ "classless_zone_delegation_change ch"])
    apply (rule exI[of _ "system_test_zone_change ch"], rule exI[of _ "parent_zone_change ch"])
    apply (simp only: f)
    apply (simp add: creation_events_def zone_request_def connection_def parent_zone_request_def
        dummy_group_request_def new_context_def VinylDNSClient_def)
    done
next
  assume "list_ex (\<lambda>e. is_create_zone e \<and> rejected e) (trace s)"
  moreover have "list_ex (\<lambda>e. is_create_zone e \<and> rejected e) (trace s) \<longrightarrow> res = Inl AssertionError"
    by (rule fails_on_init[OF fixture_body_rejected_creation _ assms]) (simp add: zone_event_def)
  ultimately show "res = Inl AssertionError" by simp
qed

theorem init_creates_catalog_witness:
  "init scripted tc0 happy_script = (Inr (), snd (init scripted tc0 happy_script)) \<and>
   (let okc = \<lparr>url = vinyldns_url tc0, access_key = ''okAccessKey'', secret_key = ''okSecretKey''\<rparr>;
          dc = \<lparr>url = vinyldns_url tc0, access_key = ''dummyAccessKey'',
                 secret_key = ''dummySecretKey''\<rparr>;
          conn = (\<lambda>nm. dict [(''name'', JStr nm),
                               (''keyName'', JStr (dns_key_name tc0)),
                               (''key'', JStr (dns_key tc0)),
                               (''primaryServer'', JStr (dns_ip tc0))]);
          zone = (\<lambda>nm sh i cn. dict [(''name'', JStr nm),
                                     (''email'', JStr ''test@test.com''),
                                     (''shared'', JBool sh),
                                     (''adminGroupId'', i),
                                     (''connection'', conn cn),
                                     (''transferConnection'', conn cn)]);
          parent = (\<lambda>i. dict [(''name'', JStr ''parent.com.''),
                               (''email'', JStr ''test@test.com''),
                               (''shared'', JBool False),
                               (''adminGroupId'', i),
                               (''acl'', dict [(''rules'', JList
                                  [dict [(''accessLevel'', JStr ''Delete''),
                                         (''description'', JStr ''some_test_rule''),
                                         (''userId'', JStr ''dummy'')]])]),
                               (''connection'', conn ''parent.''),
                               (''transferConnection'', conn ''parent.'')]);
          created = (\<lambda>c z b. Called (Call c (Create_zone z) (Some 202)) (Response 202 b))
      in \<exists>g_ok g_dummy i_ok i_dummy b1 b2 b3 b4 b5 b6 b7 b8.
           filter is_get_group (trace (snd (init scripted tc0 happy_script))) =
             [Called (Call okc (Get_group ''ok'') (Some 200)) (Response 200 g_ok)] \<and>
           filter is_create_group (trace (snd (init scripted tc0 happy_script))) =
             [Called (Call dc (Create_group (dict
                 [(''name'', JStr ''dummy-group''),
                  (''email'', JStr ''test@test.com''),
                  (''description'', JStr ''this is a description''),
                  (''members'', JList [dict [(''id'', JStr ''dummy'')]]),
                  (''admins'', JList [dict [(''id'', JStr ''dummy'')]])])) (Some 200))
                (Response 200 g_dummy)] \<and>
           py_getitem g_ok ''id'' = Inr i_ok \<and>
           py_getitem g_dummy ''id'' = Inr i_dummy \<and>
           filter is_create_zone (trace (snd (init scripted tc0 happy_script))) =
             [created okc (zone ''ok.'' False i_ok ''ok.'') b1,
              created dc (zone ''dummy.'' False i_dummy ''dummy.'') b2,
              created okc (zone ''1.9.e.f.c.c.7.2.9.6.d.f.ip6.arpa.'' True i_ok ''ip6.'') b3,
              created okc (zone ''30.172.in-addr.arpa.'' True i_ok ''ip4.'') b4,
              created okc (zone ''2.0.192.in-addr.arpa.'' False i_ok ''classless-base.'') b5,
              created okc (zone ''192/30.2.0.192.in-addr.arpa.'' False i_ok ''classless.'') b6,
              created okc (zone ''system-test.'' True i_ok ''system-test.'') b7,
              created okc (parent i_ok) b8]) \<and>
   list_ex (\<lambda>e. is_create_zone e \<and> rejected e) (trace (snd (init scripted tc0 rejected_script))) \<and>
   fst (init scripted tc0 rejected_script) = Inl AssertionError"
proof -
  have 1: "(let okc = \<lparr>url = vinyldns_url tc0, access_key = ''okAccessKey'', secret_key = ''okSecretKey''\<rparr>;
          dc = \<lparr>url = vinyldns_url tc0, access_key = ''dummyAccessKey'',
                 secret_key = ''dummySecretKey''\<rparr>;
          conn = (\<lambda>nm. dict [(''name'', JStr nm),
                               (''keyName'', JStr (dns_key_name tc0)),
                               (''key'', JStr (dns_key tc0)),
                               (''primaryServer'', JStr (dns_ip tc0))]);
          zone = (\<lambda>nm sh i cn. dict [(''name'', JStr nm),
                                     (''email'', JStr ''test@test.com''),
                                     (''shared'', JBool sh),
                                     (''adminGroupId'', i),
                                     (''connection'', conn cn),
                                     (''transferConnection'', conn cn)]);
          parent = (\<lambda>i. dict [(''name'', JStr ''parent.com.''),
                               (''email'', JStr ''test@test.com''),
                               (''shared'', JBool False),
                               (''adminGroupId'', i),
                               (''acl'', dict [(''rules'', JList
                                  [dict [(''accessLevel'', JStr ''Delete''),
                                         (''description'', JStr ''some_test_rule''),
                                         (''userId'', JStr ''dummy'')]])]),
                               (''connection'', conn ''parent.''),
                               (''transferConnection'', conn ''parent.'')]);
          created = (\<lambda>c z b. Called (Call c (Create_zone z) (Some 202)) (Response 202 b))
      in \<exists>g_ok g_dummy i_ok i_dummy b1 b2 b3 b4 b5 b6 b7 b8.
           filter is_get_group (trace (snd (init scripted tc0 happy_script))) =
             [Called (Call okc (Get_group ''ok'') (Some 200)) (Response 200 g_ok)] \<and>
           filter is_create_group (trace (snd (init scripted tc0 happy_script))) =
             [Called (Call dc (Create_group (dict
                 [(''name'', JStr ''dummy-group''),
                  (''email'', JStr ''test@test.com''),
                  (''description'', JStr ''this is a description''),
                  (''members'', JList [dict [(''id'', JStr ''dummy'')]]),
                  (''admins'', JList [dict [(''id'', JStr ''dummy'')]])])) (Some 200))
                (Response 200 g_dummy)] \<and>
           py_getitem g_ok ''id'' = Inr i_ok \<and>
           py_getitem g_dummy ''id'' = Inr i_dummy \<and>
           filter is_create_zone (trace (snd (init scripted tc0 happy_script))) =
             [created okc (zone ''ok.'' False i_ok ''ok.'') b1,
              created dc (zone ''dummy.'' False i_dummy ''dummy.'') b2,
              created okc (zone ''1.9.e.f.c.c.7.2.9.6.d.f.ip6.arpa.'' True i_ok ''ip6.'') b3,
              created okc (zone ''30.172.in-addr.arpa.'' True i_ok ''ip4.'') b4,
              created okc (zone ''2.0.192.in-addr.arpa.'' False i_ok ''classless-base.'') b5,
              created okc (zone ''192/30.2.0.192.in-addr.arpa.'' False i_ok ''classless.'') b6,
              created okc (zone ''system-test.'' True i_ok ''system-test.'') b7,
              created okc (parent i_ok) b8])"
    using init_creates_catalog[OF happy_init] by blast
  have "init scripted tc0 rejected_script =
      (fst (init scripted tc0 rejected_script), snd (init scripted tc0 rejected_script))"
    by simp
  from init_creates_catalog[OF this] rejected_run
  have 2: "fst (init scripted tc0 rejected_script) = Inl AssertionError" by blast
  from happy_init 1 rejected_run 2 show ?thesis by (intro conjI)
qed

text \<open>
  C7. In a constructor call that returns, the calls that concern zones are, in order: the
  eight creations, then the nine waits of the source on the changes the creations
  returned (the change of \<^verbatim>\<open>system-test.\<close> first and again as the eighth), each of which
  came back, and only then the two listings of the validation. Every change a creation
  returned is the argument of one of the waits; the order of the waits is not the order
  of the creations.
\<close>

theorem init_awaits_every_change:
  assumes "init env tc w = (Inr u, s)"
  shows "\<exists>i_ok i_dummy ch ws ra rb.
     filter zone_event (trace s) =
       creation_events tc i_ok i_dummy ch @ ws @
       [Called (Call (dummy_vinyldns_client (new_context tc)) List_zones None) ra,
        Called (Call (ok_vinyldns_client (new_context tc)) List_zones None) rb] \<and>
     map call_of ws = map Some (wait_calls tc ch) \<and>
     list_all returned ws \<and>
     length ws = 9 \<and>
     set (map body_of (creation_events tc i_ok i_dummy ch)) \<subseteq>
       set (map awaited_change (wait_calls tc ch))"
  using assms
proof (rule init_success_shape)
  fix pre g1 g2 ch ws ra rb
  assume t: "trace s = pre @ creation_events tc g1 g2 ch @ ws @
       [Called (Call (dummy_vinyldns_client (new_context tc)) List_zones None) ra,
        Called (Call (ok_vinyldns_client (new_context tc)) List_zones None) rb]"
    and pre: "list_all (\<lambda>e. \<not> zone_event e) pre"
    and ws: "map call_of ws = map Some (wait_calls tc ch)" "list_all returned ws"
  have 1: "filter zone_event (trace s) =
       creation_events tc g1 g2 ch @ ws @
       [Called (Call (dummy_vinyldns_client (new_context tc)) List_zones None) ra,
        Called (Call (ok_vinyldns_client (new_context tc)) List_zones None) rb]"
    using t pre ws(1) by (simp add: zone_event_filters) (simp add: zone_event_def)
  have "length (map call_of ws) = length (map Some (wait_calls tc ch))" using ws(1) by simp
  then have 2: "length ws = 9" by (simp add: wait_calls_def)
  have 3: "set (map body_of (creation_events tc g1 g2 ch)) \<subseteq>
       set (map awaited_change (wait_calls tc ch))"
    by (simp add: creation_events_def wait_calls_def)
  from 1 2 3 ws show ?thesis by blast
qed

theorem init_awaits_every_change_witness:
  "init scripted tc0 happy_script = (Inr (), snd (init scripted tc0 happy_script)) \<and>
   (\<exists>i_ok i_dummy ch ws ra rb.
     filter zone_event (trace (snd (init scripted tc0 happy_script))) =
       creation_events tc0 i_ok i_dummy ch @ ws @
       [Called (Call (dummy_vinyldns_client (new_context tc0)) List_zones None) ra,
        Called (Call (ok_vinyldns_client (new_context tc0)) List_zones None) rb] \<and>
     map call_of ws = map Some (wait_calls tc0 ch) \<and>
     list_all returned ws \<and>
     length ws = 9 \<and>
     set (map body_of (creation_events tc0 i_ok i_dummy ch)) \<subseteq>
       set (map awaited_change (wait_calls tc0 ch)))"
  using init_awaits_every_change[OF happy_init] happy_init by simp

text \<open>
  C8. Against a remote that returns, as the \<^verbatim>\<open>zone\<close> of a zone change, the zone it was
  asked to create, a constructor call that returns has received for \<^verbatim>\<open>parent.com.\<close>, in
  the reply to its last zone creation, a representation that holds exactly one rule:
  access level \<^verbatim>\<open>Delete\<close>, description \<^verbatim>\<open>some_test_rule\<close>, user \<^verbatim>\<open>dummy\<close>. That
  representation is what the attribute \<^verbatim>\<open>parent_zone\<close> of the fixture holds.
\<close>

theorem init_parent_zone_acl:
  assumes "init (returning_requested_zone base) tc w = (Inr (), s)"
  shows "\<exists>request b z.
     last (filter is_create_zone (trace s)) =
       Called (Call \<lparr>url = vinyldns_url tc, access_key = ''okAccessKey'',
                     secret_key = ''okSecretKey''\<rparr> (Create_zone request) (Some 202))
         (Response 202 b) \<and>
     py_getitem b ''zone'' = Inr z \<and>
     parent_zone (self s) = Some z \<and>
     py_getitem z ''name'' = Inr (JStr ''parent.com.'') \<and>
     py_getitem z ''acl'' =
       Inr (dict [(''rules'', JList [dict [(''accessLevel'', JStr ''Delete''),
                                          (''description'', JStr ''some_test_rule''),
                                          (''userId'', JStr ''dummy'')]])])"
proof -
  from init_requested_parent[OF assms] obtain g1 g2 ch where
    f: "filter is_create_zone (trace s) = creation_events tc g1 g2 ch" and
    z: "py_getitem (parent_zone_change ch) ''zone'' = Inr (parent_zone_request tc g1)" and
    p: "parent_zone (self s) = Some (parent_zone_request tc g1)"
    by blast
  have "last (filter is_create_zone (trace s)) =
       Called (Call \<lparr>url = vinyldns_url tc, access_key = ''okAccessKey'',
                     secret_key = ''okSecretKey''\<rparr> (Create_zone (parent_zone_request tc g1)) (Some 202))
         (Response 202 (parent_zone_change ch))"
    unfolding f last_creation_events by (simp add: new_context_def VinylDNSClient_def)
  with z p parent_zone_request_name[of tc g1] parent_zone_request_acl[of tc g1]
  show ?thesis by blast
qed

theorem init_parent_zone_acl_witness:
  "init (returning_requested_zone scripted) tc0 happy_script =
     (Inr (), snd (init (returning_requested_zone scripted) tc0 happy_script)) \<and>
   (\<exists>request b z.
     last (filter is_create_zone
        (trace (snd (init (returning_requested_zone scripted) tc0 happy_script)))) =
       Called (Call \<lparr>url = vinyldns_url tc0, access_key = ''okAccessKey'',
                     secret_key = ''okSecretKey''\<rparr> (Create_zone request) (Some 202))
         (Response 202 b) \<and>
     py_getitem b ''zone'' = Inr z \<and>
     parent_zone (self (snd (init (returning_requested_zone scripted) tc0 happy_script))) = Some z \<and>
     py_getitem z ''name'' = Inr (JStr ''parent.com.'') \<and>
     py_getitem z ''acl'' =
       Inr (dict [(''rules'', JList [dict [(''accessLevel'', JStr ''Delete''),
                                          (''description'', JStr ''some_test_rule''),
                                          (''userId'', JStr ''dummy'')]])]))"
  using init_parent_zone_acl[OF happy_requested_run] happy_requested_run by (intro conjI)




text \<open>
  C10. After a constructor call that returns, each of the eight zone attributes of the
  object holds the \<^verbatim>\<open>'zone'\<close> field of the body the corresponding creation call returned:
  the values assigned at creation time are the values the object ends with, after the
  waits and the validation.
\<close>

theorem init_exposes_created_zones:
  assumes "init env tc w = (Inr u, s)"
  shows "\<exists>i_ok i_dummy ch z1 z2 z3 z4 z5 z6 z7 z8.
     filter is_create_zone (trace s) = creation_events tc i_ok i_dummy ch \<and>
     py_getitem (ok_zone_change ch) ''zone'' = Inr z1 \<and> ok_zone (self s) = Some z1 \<and>
     py_getitem (dummy_zone_change ch) ''zone'' = Inr z2 \<and> dummy_zone (self s) = Some z2 \<and>
     py_getitem (ip6_reverse_zone_change ch) ''zone'' = Inr z3 \<and>
       ip6_reverse_zone (self s) = Some z3 \<and>
     py_getitem (ip4_reverse_zone_change ch) ''zone'' = Inr z4 \<and>
       ip4_reverse_zone (self s) = Some z4 \<and>
     py_getitem (classless_base_zone_change ch) ''zone'' = Inr z5 \<and>
       classless_base_zone (self s) = Some z5 \<and>
     py_getitem (classless_zone_delegation_change ch) ''zone'' = Inr z6 \<and>
       classless_zone_delegation_zone (self s) = Some z6 \<and>
     py_getitem (system_test_zone_change ch) ''zone'' = Inr z7 \<and>
       system_test_zone (self s) = Some z7 \<and>
     py_getitem (parent_zone_change ch) ''zone'' = Inr z8 \<and> parent_zone (self s) = Some z8"
  using assms
proof (rule init_success_shape)
  fix pre g1 g2 ch ws ra rb z1 z2 z3 z4 z5 z6 z7 z8
  assume t: "trace s = pre @ creation_events tc g1 g2 ch @ ws @
       [Called (Call (dummy_vinyldns_client (new_context tc)) List_zones None) ra,
        Called (Call (ok_vinyldns_client (new_context tc)) List_zones None) rb]"
    and pre: "list_all (\<lambda>e. \<not> zone_event e) pre"
    and ws: "map call_of ws = map Some (wait_calls tc ch)"
    and zs: "py_getitem (ok_zone_change ch) ''zone'' = Inr z1 \<and>
     py_getitem (dummy_zone_change ch) ''zone'' = Inr z2 \<and>
     py_getitem (ip6_reverse_zone_change ch) ''zone'' = Inr z3 \<and>
     py_getitem (ip4_reverse_zone_change ch) ''zone'' = Inr z4 \<and>
     py_getitem (classless_base_zone_change ch) ''zone'' = Inr z5 \<and>
     py_getitem (classless_zone_delegation_change ch) ''zone'' = Inr z6 \<and>
     py_getitem (system_test_zone_change ch) ''zone'' = Inr z7 \<and>
     py_getitem (parent_zone_change ch) ''zone'' = Inr z8"
    and fs: "ok_zone (self s) = Some z1 \<and> dummy_zone (self s) = Some z2 \<and>
     ip6_reverse_zone (self s) = Some z3 \<and> ip4_reverse_zone (self s) = Some z4 \<and>
     classless_base_zone (self s) = Some z5 \<and>
     classless_zone_delegation_zone (self s) = Some z6 \<and>
     system_test_zone (self s) = Some z7 \<and> parent_zone (self s) = Some z8"
  have "filter is_create_zone (trace s) = creation_events tc g1 g2 ch"
    using t pre ws by (simp add: filter_no_zone_event waits_only)
  with zs fs show ?thesis by blast
qed

theorem init_exposes_created_zones_witness:
  "init scripted tc0 happy_script = (Inr (), snd (init scripted tc0 happy_script)) \<and>
   (\<exists>i_ok i_dummy ch z1 z2 z3 z4 z5 z6 z7 z8.
     filter is_create_zone (trace (snd (init scripted tc0 happy_script))) =
       creation_events tc0 i_ok i_dummy ch \<and>
     py_getitem (ok_zone_change ch) ''zone'' = Inr z1 \<and>
       ok_zone (self (snd (init scripted tc0 happy_script))) = Some z1 \<and>
     py_getitem (dummy_zone_change ch) ''zone'' = Inr z2 \<and>
       dummy_zone (self (snd (init scripted tc0 happy_script))) = Some z2 \<and>
     py_getitem (ip6_reverse_zone_change ch) ''zone'' = Inr z3 \<and>
       ip6_reverse_zone (self (snd (init scripted tc0 happy_script))) = Some z3 \<and>
     py_getitem (ip4_reverse_zone_change ch) ''zone'' = Inr z4 \<and>
       ip4_reverse_zone (self (snd (init scripted tc0 happy_script))) = Some z4 \<and>
     py_getitem (classless_base_zone_change ch) ''zone'' = Inr z5 \<and>
       classless_base_zone (self (snd (init scripted tc0 happy_script))) = Some z5 \<and>
     py_getitem (classless_zone_delegation_change ch) ''zone'' = Inr z6 \<and>
       classless_zone_delegation_zone (self (snd (init scripted tc0 happy_script))) = Some z6 \<and>
     py_getitem (system_test_zone_change ch) ''zone'' = Inr z7 \<and>
       system_test_zone (self (snd (init scripted tc0 happy_script))) = Some z7 \<and>
     py_getitem (parent_zone_change ch) ''zone'' = Inr z8 \<and>
       parent_zone (self (snd (init scripted tc0 happy_script))) = Some z8)"
  using init_exposes_created_zones[OF happy_init] happy_init by simp

end
